theory Spec2Isabelle
  imports Main "HOL-Library.Word"
begin

unbundle bit_operations_syntax

section \<open>The WiMOD HCI driver (src/wimod.c)\<close>

text \<open>
  Conventions of the embedding.
  \<^item> A C buffer argument, a pointer together with its length, is the list of the bytes
    it denotes; \<open>length\<close> of the list is the C length argument.
  \<^item> Functions that change the device take the device record and return the new one.
  \<^item> What the kernel decides (the result of a write to the serial controller, the
    result of an allocation) is scripted in the state: a list of the answers to come.
  \<^item> An access outside an object is a \<open>fault\<close>, never a silent no-op.
\<close>

type_synonym u8 = "8 word"
type_synonym u16 = "16 word"

subsection \<open>Constants\<close>

definition WIMOD_HCI_PAYLOAD_MAX :: nat where
  "WIMOD_HCI_PAYLOAD_MAX = 300"

definition WIMOD_HCI_PACKET_MAX :: nat where
  "WIMOD_HCI_PACKET_MAX = 1 + (2 + WIMOD_HCI_PAYLOAD_MAX + 2) * 2 + 1"

definition SLIP_END :: u8 where "SLIP_END = 0xC0"
definition SLIP_ESC :: u8 where "SLIP_ESC = 0xDB"
definition SLIP_ESC_END :: u8 where "SLIP_ESC_END = 0xDC"
definition SLIP_ESC_ESC :: u8 where "SLIP_ESC_ESC = 0xDD"

definition DEVMGMT_ID :: u8 where "DEVMGMT_ID = 0x01"
definition DEVMGMT_MSG_PING_REQ :: u8 where "DEVMGMT_MSG_PING_REQ = 0x01"
definition DEVMGMT_MSG_PING_RSP :: u8 where "DEVMGMT_MSG_PING_RSP = 0x02"
definition DEVMGMT_MSG_GET_DEVICE_INFO_REQ :: u8 where "DEVMGMT_MSG_GET_DEVICE_INFO_REQ = 0x03"
definition DEVMGMT_MSG_GET_DEVICE_INFO_RSP :: u8 where "DEVMGMT_MSG_GET_DEVICE_INFO_RSP = 0x04"
definition DEVMGMT_STATUS_OK :: u8 where "DEVMGMT_STATUS_OK = 0x00"

definition EINVAL :: int where "EINVAL = 22"
definition ETIMEDOUT :: int where "ETIMEDOUT = 110"

subsection \<open>The frame check sequence: \<open>linux/crc-ccitt.h\<close>\<close>

text \<open>
  Modelled from the spec: \<open>crc_ccitt\<close> and \<open>crc_ccitt_byte\<close> come from the kernel
  header \<open>linux/crc-ccitt.h\<close>, which is not among the sources. Section 4.1 of the
  spec names the algorithm: CRC-CCITT in its X.25 variant, processed byte by byte. That
  is the reflected polynomial \<open>0x8408\<close>; one byte is folded in with one table lookup,
  \<open>(crc >> 8) ^ table[(crc ^ c) & 0xff]\<close>, and entry \<open>i\<close> of the table is \<open>i\<close>
  after eight shift-and-conditionally-xor steps.
\<close>

definition crc_step :: "u16 \<Rightarrow> u16" where
  "crc_step x = (if bit x 0 then drop_bit 1 x XOR 0x8408 else drop_bit 1 x)"

definition crc_ccitt_table :: "u16 \<Rightarrow> u16" where
  "crc_ccitt_table i =
     crc_step (crc_step (crc_step (crc_step (crc_step (crc_step (crc_step (crc_step i)))))))"

definition crc_ccitt_byte :: "u16 \<Rightarrow> u8 \<Rightarrow> u16" where
  "crc_ccitt_byte crc c = drop_bit 8 crc XOR crc_ccitt_table ((crc XOR ucast c) AND 0xff)"

definition crc_ccitt :: "u16 \<Rightarrow> u8 list \<Rightarrow> u16" where
  "crc_ccitt crc buffer = fold (\<lambda>c crc. crc_ccitt_byte crc c) buffer crc"

subsection \<open>The serial device\<close>

text \<open>
  \<open>tx\<close> is what the controller has accepted so far. \<open>wr_results\<close> scripts the results
  of the calls of \<open>serdev_device_write\<close> to come (0 is success, anything else is the
  error the driver sees); once the script is used up every write succeeds. A failed
  write is modelled as writing nothing.
\<close>

record serdev_device =
  tx :: "u8 list"
  wr_results :: "int list"

definition serdev_device_write :: "serdev_device \<Rightarrow> u8 list \<Rightarrow> int \<times> serdev_device" where
  "serdev_device_write sdev buf =
     (case wr_results sdev of
        [] \<Rightarrow> (0, sdev\<lparr>tx := tx sdev @ buf\<rparr>)
      | r # rs \<Rightarrow>
          if r = 0 then (0, sdev\<lparr>tx := tx sdev @ buf, wr_results := rs\<rparr>)
          else (r, sdev\<lparr>wr_results := rs\<rparr>))"

subsection \<open>SLIP encoding\<close>

definition slip_send_end :: "serdev_device \<Rightarrow> int \<times> serdev_device" where
  "slip_send_end sdev = serdev_device_write sdev [SLIP_END]"

text \<open>The bytes \<open>buf[first .. last - 1]\<close>, the segment a write is given.\<close>

definition segment :: "u8 list \<Rightarrow> int \<Rightarrow> int \<Rightarrow> u8 list" where
  "segment buf first n = take (nat n) (drop (nat first) buf)"

text \<open>The loop of \<open>slip_send_data\<close>, with its variables \<open>last_idx\<close> and \<open>i\<close>.\<close>

function slip_send_data_loop ::
  "serdev_device \<Rightarrow> u8 list \<Rightarrow> int \<Rightarrow> nat \<Rightarrow> int \<times> serdev_device" where
  "slip_send_data_loop sdev buf last_idx i =
     (if i < length buf then
        if buf ! i \<noteq> SLIP_END \<and> buf ! i \<noteq> SLIP_ESC then
          slip_send_data_loop sdev buf last_idx (i + 1)
        else
          (case serdev_device_write sdev (segment buf (last_idx + 1) (int i - (last_idx + 1))) of
             (ret, sdev1) \<Rightarrow>
               if ret \<noteq> 0 then (ret, sdev1)
               else
                 (case serdev_device_write sdev1
                         [SLIP_ESC, if buf ! i = SLIP_END then SLIP_ESC_END else SLIP_ESC_ESC] of
                    (ret, sdev2) \<Rightarrow>
                      if ret \<noteq> 0 then (ret, sdev2)
                      else slip_send_data_loop sdev2 buf (int i) (i + 1)))
      else
        serdev_device_write sdev
          (segment buf (last_idx + 1) (int (length buf) - (last_idx + 1))))"
  by pat_completeness auto
termination
  by (relation "measure (\<lambda>(sdev, buf, last_idx, i). length buf - i)") auto

definition slip_send_data :: "serdev_device \<Rightarrow> u8 list \<Rightarrow> int \<times> serdev_device" where
  "slip_send_data sdev buf = slip_send_data_loop sdev buf (- 1) 0"

subsection \<open>Sending a frame\<close>

text \<open>
  \<open>cpu_to_le16s\<close> and the cast \<open>(u8 *)&crc\<close>: the two bytes of the checksum in
  little-endian order.
\<close>

definition le16_bytes :: "u16 \<Rightarrow> u8 list" where
  "le16_bytes crc = [ucast crc, ucast (drop_bit 8 crc)]"

definition hci_fcs :: "u8 \<Rightarrow> u8 \<Rightarrow> u8 list \<Rightarrow> u16" where
  "hci_fcs dst_id msg_id payload =
     (let crc = 0xffff;
          crc = crc_ccitt_byte crc dst_id;
          crc = crc_ccitt_byte crc msg_id;
          crc = (if length payload > 0 then crc_ccitt crc payload else crc)
      in NOT crc)"

text \<open>
  The frame before escaping, as \<open>wimod_hci_send\<close> hands it to \<open>slip_send_data\<close> piece by
  piece: the two address bytes, the payload, the two checksum bytes.
\<close>

definition hci_frame :: "u8 \<Rightarrow> u8 \<Rightarrow> u8 list \<Rightarrow> u8 list" where
  "hci_frame dst_id msg_id payload =
     dst_id # msg_id # payload @ le16_bytes (hci_fcs dst_id msg_id payload)"

definition wimod_hci_send ::
  "serdev_device \<Rightarrow> u8 \<Rightarrow> u8 \<Rightarrow> u8 list \<Rightarrow> int \<times> serdev_device" where
  "wimod_hci_send sdev dst_id msg_id payload =
     (let crc = hci_fcs dst_id msg_id payload in
      case slip_send_end sdev of (ret, sdev) \<Rightarrow>
      if ret \<noteq> 0 then (ret, sdev) else
      case slip_send_data sdev [dst_id] of (ret, sdev) \<Rightarrow>
      if ret \<noteq> 0 then (ret, sdev) else
      case slip_send_data sdev [msg_id] of (ret, sdev) \<Rightarrow>
      if ret \<noteq> 0 then (ret, sdev) else
      case (if length payload > 0 then slip_send_data sdev payload else (0, sdev)) of
        (ret, sdev) \<Rightarrow>
      if ret \<noteq> 0 then (ret, sdev) else
      case slip_send_data sdev (le16_bytes crc) of (ret, sdev) \<Rightarrow>
      if ret \<noteq> 0 then (ret, sdev) else
      case slip_send_end sdev of (ret, sdev) \<Rightarrow>
      if ret \<noteq> 0 then (ret, sdev) else (0, sdev))"

subsection \<open>Dispatchers and completions\<close>

text \<open>
  \<open>struct completion\<close> is its counter \<open>done\<close>: \<open>init_completion\<close> sets it to 0,
  \<open>complete\<close> increments it (it saturates at \<open>UINT_MAX\<close>), \<open>completion_done\<close> tests it
  against 0, and a successful wait takes one unit back.

  \<open>payload\<close> is the pointer field: \<open>None\<close> is \<open>NULL\<close>, \<open>Some bs\<close> an allocated
  object holding \<open>bs\<close>.
\<close>

record wimod_hci_packet_completion =
  comp_done :: nat
  payload :: "u8 list option"
  payload_len :: int

text \<open>
  \<open>kmem\<close> scripts the allocator: the answers of the calls of \<open>kzalloc\<close> to come,
  \<open>True\<close> for an object, \<open>False\<close> for \<open>NULL\<close>; once the script is used up every
  allocation succeeds. The size is a \<open>size_t\<close>: a negative \<open>int\<close> converts to a size
  no allocation can have.
\<close>

type_synonym kmem = "bool list"

definition kzalloc :: "int \<Rightarrow> kmem \<Rightarrow> u8 list option \<times> kmem" where
  "kzalloc n km =
     (if n < 0 then (None, km)
      else case km of
        [] \<Rightarrow> (Some (replicate (nat n) 0), [])
      | ok # km' \<Rightarrow> (if ok then Some (replicate (nat n) 0) else None, km'))"

definition init_completion :: "wimod_hci_packet_completion \<Rightarrow> wimod_hci_packet_completion" where
  "init_completion x = x\<lparr>comp_done := 0\<rparr>"

definition completion_done :: "wimod_hci_packet_completion \<Rightarrow> bool" where
  "completion_done x = (comp_done x \<noteq> 0)"

definition complete :: "wimod_hci_packet_completion \<Rightarrow> wimod_hci_packet_completion" where
  "complete x = (if comp_done x \<noteq> 4294967295 then x\<lparr>comp_done := comp_done x + 1\<rparr> else x)"

text \<open>
  The wait, seen from the caller once the deadline or the signal has come: 0 when the
  completion did not fire, otherwise what is left of the timeout (at least 1).
\<close>

definition wait_for_completion_timeout ::
  "wimod_hci_packet_completion \<Rightarrow> nat \<Rightarrow> nat \<times> wimod_hci_packet_completion" where
  "wait_for_completion_timeout x timeout =
     (if comp_done x = 0 then (0, x)
      else (if timeout = 0 then 1 else timeout,
            if comp_done x \<noteq> 4294967295 then x\<lparr>comp_done := comp_done x - 1\<rparr> else x))"

text \<open>
  A dispatcher: the key, the handler, and the object the handler reaches through
  \<open>container_of\<close>. The handler gets the frame (pointer and length) and the allocator.
\<close>

record wimod_hci_packet_dispatcher =
  dst_id :: u8
  msg_id :: u8
  dispatchee ::
    "u8 list \<Rightarrow> wimod_hci_packet_completion \<Rightarrow> kmem \<Rightarrow> wimod_hci_packet_completion \<times> kmem"
  container :: wimod_hci_packet_completion

definition wimod_hci_packet_dispatch_completion ::
  "u8 list \<Rightarrow> wimod_hci_packet_completion \<Rightarrow> kmem \<Rightarrow> wimod_hci_packet_completion \<times> kmem" where
  "wimod_hci_packet_dispatch_completion data disp km =
     (if completion_done disp then (disp, km)
      else
        (let len = int (length data);
             disp = disp\<lparr>payload_len := len - 2\<rparr>
         in case kzalloc (payload_len disp) km of
              (p, km') \<Rightarrow>
                (let disp = disp\<lparr>payload := (case p of None \<Rightarrow> None
                                                | Some zs \<Rightarrow> Some (drop 2 data))\<rparr>
                 in (complete disp, km'))))"

subsection \<open>The device\<close>

text \<open>
  \<open>packet_dispatchers\<close> is the list of registered dispatchers in list order, each with
  the address of its object: the list links nodes, and two nodes with equal contents
  are still two nodes.
\<close>

record wimod_device =
  serdev :: serdev_device
  rx_buf :: "u8 list"
  rx_len :: int
  rx_esc :: bool
  packet_dispatchers :: "(nat \<times> wimod_hci_packet_dispatcher) list"
  kmem :: kmem

definition wimod_hci_add_dispatcher ::
  "wimod_device \<Rightarrow> nat \<Rightarrow> wimod_hci_packet_dispatcher \<Rightarrow> wimod_device" where
  "wimod_hci_add_dispatcher wmdev p entry =
     wmdev\<lparr>packet_dispatchers := packet_dispatchers wmdev @ [(p, entry)]\<rparr>"

definition wimod_hci_remove_dispatcher :: "wimod_device \<Rightarrow> nat \<Rightarrow> wimod_device" where
  "wimod_hci_remove_dispatcher wmdev p =
     wmdev\<lparr>packet_dispatchers := filter (\<lambda>(a, e). a \<noteq> p) (packet_dispatchers wmdev)\<rparr>"

subsection \<open>Processing a received packet\<close>

text \<open>
  What became of a packet: the function returns nothing, so the path it took is
  returned beside the state. \<open>Dispatched (Some a)\<close>: the handler of the dispatcher at
  address \<open>a\<close> was called; \<open>Dispatched None\<close>: the scan found no match.
\<close>

datatype packet_outcome =
  Discarded_length | Discarded_checksum | is_Dispatched: Dispatched "nat option"

text \<open>The test \<open>e->dst_id == data[0] && e->msg_id == data[1]\<close>.\<close>

definition dispatcher_matches :: "wimod_hci_packet_dispatcher \<Rightarrow> u8 list \<Rightarrow> bool" where
  "dispatcher_matches e data = (dst_id e = data ! 0 \<and> msg_id e = data ! 1)"

text \<open>The \<open>list_for_each_entry\<close> scan with its \<open>break\<close>.\<close>

fun dispatch_scan ::
  "(nat \<times> wimod_hci_packet_dispatcher) list \<Rightarrow> u8 list \<Rightarrow> kmem \<Rightarrow>
   nat option \<times> (nat \<times> wimod_hci_packet_dispatcher) list \<times> kmem" where
  "dispatch_scan [] data km = (None, [], km)"
| "dispatch_scan ((a, e) # es) data km =
     (if dispatcher_matches e data then
        (case dispatchee e (take (length data - 2) data) (container e) km of
           (c, km') \<Rightarrow> (Some a, (a, e\<lparr>container := c\<rparr>) # es, km'))
      else
        (case dispatch_scan es data km of
           (r, es', km') \<Rightarrow> (r, (a, e) # es', km')))"

definition wimod_process_packet ::
  "wimod_device \<Rightarrow> u8 list \<Rightarrow> packet_outcome \<times> wimod_device" where
  "wimod_process_packet wmdev data =
     (if int (length data) < 4 then (Discarded_length, wmdev)
      else if NOT (crc_ccitt 0xffff data) \<noteq> 0x0f47 then (Discarded_checksum, wmdev)
      else
        (case dispatch_scan (packet_dispatchers wmdev) data (kmem wmdev) of
           (r, es, km) \<Rightarrow> (Dispatched r, wmdev\<lparr>packet_dispatchers := es, kmem := km\<rparr>)))"

subsection \<open>Receiving\<close>

datatype fault = Rx_buf_overflow | Bad_read | Bad_write | Bad_dispatcher

text \<open>A \<open>size_t\<close> on a 64-bit kernel.\<close>

definition size_t :: "int \<Rightarrow> nat" where
  "size_t x = nat (x mod 2 ^ 64)"

text \<open>
  Writing \<open>bytes\<close> at \<open>rx_buf[rx_len]\<close> and advancing \<open>rx_len\<close>: the \<open>memcpy\<close> of a
  run of literal bytes, and \<open>rx_buf[rx_len++] = c\<close> for a decoded escape. A write that
  does not lie inside the array is the fault \<open>Rx_buf_overflow\<close>.
\<close>

definition rx_store :: "wimod_device \<Rightarrow> u8 list \<Rightarrow> fault + wimod_device" where
  "rx_store wmdev bytes =
     (if 0 \<le> rx_len wmdev \<and> rx_len wmdev + int (length bytes) \<le> int WIMOD_HCI_PACKET_MAX then
        Inr (wmdev\<lparr>rx_buf := take (nat (rx_len wmdev)) (rx_buf wmdev) @ bytes @
                               drop (nat (rx_len wmdev) + length bytes) (rx_buf wmdev),
                    rx_len := rx_len wmdev + int (length bytes)\<rparr>)
      else Inl Rx_buf_overflow)"

text \<open>
  The packets handed to \<open>wimod_process_packet\<close> during a call, in order, each with
  what became of it.
\<close>

type_synonym rx_trace = "(u8 list \<times> packet_outcome) list"

text \<open>
  The loop of \<open>wimod_receive_buf\<close>. \<open>data\<close> is what is left of the chunk (the C code
  advances the pointer and decreases \<open>count\<close>), \<open>i\<close> the scan index in it, \<open>len\<close> the
  number of bytes consumed. The result is \<open>len\<close>, the trace and the device.
\<close>

function wimod_receive_loop ::
  "wimod_device \<Rightarrow> u8 list \<Rightarrow> nat \<Rightarrow> int \<Rightarrow> rx_trace \<Rightarrow>
   fault + (int \<times> rx_trace \<times> wimod_device)" where
  "wimod_receive_loop wmdev data i len tr =
     (if i < min (length data) (size_t (int WIMOD_HCI_PACKET_MAX - rx_len wmdev)) then
        if rx_esc wmdev then
          (case (if data ! i = SLIP_ESC_END then rx_store (wmdev\<lparr>rx_esc := False\<rparr>) [SLIP_END]
                 else if data ! i = SLIP_ESC_ESC then rx_store (wmdev\<lparr>rx_esc := False\<rparr>) [SLIP_ESC]
                 else Inr (wmdev\<lparr>rx_esc := False\<rparr>)) of
             Inl f \<Rightarrow> Inl f
           | Inr wmdev1 \<Rightarrow>
               wimod_receive_loop wmdev1 (drop (i + 1) data) 0 (len + int i + 1) tr)
        else if data ! i \<noteq> SLIP_END \<and> data ! i \<noteq> SLIP_ESC then
          wimod_receive_loop wmdev data (i + 1) len tr
        else
          (case (if i > 0 then rx_store wmdev (take i data) else Inr wmdev) of
             Inl f \<Rightarrow> Inl f
           | Inr wmdev1 \<Rightarrow>
               if data ! i = SLIP_END \<and> rx_len wmdev1 > 0 then
                 (case wimod_process_packet wmdev1
                         (take (nat (rx_len wmdev1)) (rx_buf wmdev1)) of
                    (out, wmdev2) \<Rightarrow>
                      wimod_receive_loop (wmdev2\<lparr>rx_len := 0\<rparr>) (drop (i + 1) data) 0
                        (len + int i + 1)
                        (tr @ [(take (nat (rx_len wmdev1)) (rx_buf wmdev1), out)]))
               else if data ! i = SLIP_ESC then
                 wimod_receive_loop (wmdev1\<lparr>rx_esc := True\<rparr>) (drop (i + 1) data) 0
                   (len + int i + 1) tr
               else
                 wimod_receive_loop wmdev1 (drop (i + 1) data) 0 (len + int i + 1) tr)
      else Inr (len, tr, wmdev))"
  by pat_completeness auto
termination
  by (relation "measure (\<lambda>(wmdev, data, i, len, tr). length data - i)") auto

definition wimod_receive_buf ::
  "wimod_device \<Rightarrow> u8 list \<Rightarrow> fault + (int \<times> rx_trace \<times> wimod_device)" where
  "wimod_receive_buf wmdev data = wimod_receive_loop wmdev data 0 0 []"


text \<open>
  The device as \<open>wimod_probe\<close> sets it up: zeroed by \<open>devm_kzalloc\<close>, the list of
  dispatchers empty.
\<close>

definition wimod_device_init :: "serdev_device \<Rightarrow> kmem \<Rightarrow> wimod_device" where
  "wimod_device_init sdev km =
     \<lparr>serdev = sdev, rx_buf = replicate WIMOD_HCI_PACKET_MAX 0, rx_len = 0, rx_esc = False,
      packet_dispatchers = [], kmem = km\<rparr>"

subsection \<open>The transport that calls \<open>wimod_receive_buf\<close>\<close>

text \<open>
  Modelled from the spec: the serdev core, which calls \<open>receive_buf\<close>, is not among the
  sources. Section 4.3 of the spec: the function returns the number of input bytes it
  consumed so that the transport can account for buffering. The bytes a call did not
  consume stay queued (\<open>pending\<close>) and are presented again, followed by the next chunk.
\<close>

fun serdev_receive ::
  "wimod_device \<Rightarrow> u8 list \<Rightarrow> u8 list list \<Rightarrow> rx_trace \<Rightarrow>
   fault + (u8 list \<times> rx_trace \<times> wimod_device)" where
  "serdev_receive wmdev pending [] tr = Inr (pending, tr, wmdev)"
| "serdev_receive wmdev pending (chunk # chunks) tr =
     (case wimod_receive_buf wmdev (pending @ chunk) of
        Inl f \<Rightarrow> Inl f
      | Inr (n, tr', wmdev') \<Rightarrow>
          serdev_receive wmdev' (drop (nat n) (pending @ chunk)) chunks (tr @ tr'))"

text \<open>
  A caller that passes each chunk to \<open>wimod_receive_buf\<close> once and does not look at the
  number of bytes consumed.
\<close>

fun receive_each_once ::
  "wimod_device \<Rightarrow> u8 list list \<Rightarrow> rx_trace \<Rightarrow> fault + (rx_trace \<times> wimod_device)" where
  "receive_each_once wmdev [] tr = Inr (tr, wmdev)"
| "receive_each_once wmdev (chunk # chunks) tr =
     (case wimod_receive_buf wmdev chunk of
        Inl f \<Rightarrow> Inl f
      | Inr (n, tr', wmdev') \<Rightarrow> receive_each_once wmdev' chunks (tr @ tr'))"

subsection \<open>Requests\<close>

definition wimod_hci_devmgmt_status :: "u8 \<Rightarrow> int" where
  "wimod_hci_devmgmt_status status = (if status = DEVMGMT_STATUS_OK then 0 else - EINVAL)"

text \<open>
  \<open>memcpy(dst, src, n)\<close>: \<open>dst\<close> and \<open>src\<close> are the objects the two pointers point
  into, from the pointer to the end of the object. Reading \<open>n\<close> bytes where \<open>src\<close> has
  fewer is the fault \<open>Bad_read\<close>, writing \<open>n\<close> bytes where \<open>dst\<close> has fewer is the fault
  \<open>Bad_write\<close>; otherwise the first \<open>n\<close> bytes of \<open>dst\<close> become those of \<open>src\<close>.
\<close>

definition memcpy :: "u8 list \<Rightarrow> u8 list \<Rightarrow> nat \<Rightarrow> fault + u8 list" where
  "memcpy dst src n =
     (if length src < n then Inl Bad_read
      else if length dst < n then Inl Bad_write
      else Inr (take n src @ drop n dst))"

text \<open>
  The waiter both request operations set up on their stack: \<open>packet = {0}\<close>, the key of
  the expected response, the completion handler, \<open>init_completion\<close>.
\<close>

definition hci_waiter :: "u8 \<Rightarrow> u8 \<Rightarrow> wimod_hci_packet_dispatcher" where
  "hci_waiter dst msg =
     \<lparr>dst_id = dst, msg_id = msg, dispatchee = wimod_hci_packet_dispatch_completion,
      container = init_completion \<lparr>comp_done = 0, payload = None, payload_len = 0\<rparr>\<rparr>"

text \<open>
  The two request operations block between sending and reading the answer. The model
  is sequential: \<open>p\<close> is the address of the caller's \<open>packet\<close>, and \<open>rx\<close> are the chunks
  the receive path is given while the caller waits. When they have been processed, the
  wait returns. A read through \<open>packet.payload\<close> where there is no byte is the fault
  \<open>Bad_read\<close>, a write through \<open>buf\<close> where there is no byte the fault \<open>Bad_write\<close>;
  the call does not return then.

  Lines 245 to 253: what \<open>wimod_hci_ping\<close> makes of the completed packet.
\<close>

definition ping_response :: "wimod_hci_packet_completion \<Rightarrow> fault + int" where
  "ping_response packet =
     (if payload_len packet < 1 then Inr (- EINVAL)
      else case payload packet of
        None \<Rightarrow> Inl Bad_read
      | Some [] \<Rightarrow> Inl Bad_read
      | Some (status # rest) \<Rightarrow> Inr (wimod_hci_devmgmt_status status))"

definition wimod_hci_ping ::
  "wimod_device \<Rightarrow> nat \<Rightarrow> nat \<Rightarrow> u8 list list \<Rightarrow> (fault + int) \<times> wimod_device" where
  "wimod_hci_ping wmdev p timeout rx =
     (let packet = hci_waiter DEVMGMT_ID DEVMGMT_MSG_PING_RSP;
          wmdev = wimod_hci_add_dispatcher wmdev p packet
      in case wimod_hci_send (serdev wmdev) DEVMGMT_ID DEVMGMT_MSG_PING_REQ [] of
        (ret, sdev) \<Rightarrow>
          (let wmdev = wmdev\<lparr>serdev := sdev\<rparr> in
           if ret \<noteq> 0 then (Inr ret, wimod_hci_remove_dispatcher wmdev p)
           else
             (case serdev_receive wmdev [] rx [] of
                Inl f \<Rightarrow> (Inl f, wmdev)
              | Inr (pending, tr, wmdev) \<Rightarrow>
                  (case map_of (packet_dispatchers wmdev) p of
                     None \<Rightarrow> (Inl Bad_dispatcher, wmdev)
                   | Some d \<Rightarrow>
                       (case wait_for_completion_timeout (container d) timeout of
                          (timeout, packet) \<Rightarrow>
                            (let wmdev = wimod_hci_remove_dispatcher wmdev p in
                             if timeout = 0 then (Inr (- ETIMEDOUT), wmdev)
                             else (ping_response packet, wmdev)))))))"

text \<open>
  Lines 282 to 305: what \<open>wimod_hci_get_device_info\<close> makes of the completed packet.
  \<open>buf\<close> is the caller's buffer, \<open>None\<close> for a null pointer.
\<close>

definition get_device_info_response ::
  "wimod_hci_packet_completion \<Rightarrow> u8 list option \<Rightarrow> (fault + int) \<times> u8 list option" where
  "get_device_info_response packet buf =
     (if payload_len packet < 1 then (Inr (- EINVAL), buf)
      else case payload packet of
        None \<Rightarrow> (Inl Bad_read, buf)
      | Some [] \<Rightarrow> (Inl Bad_read, buf)
      | Some (status # info) \<Rightarrow>
          (let ret = wimod_hci_devmgmt_status status in
           if ret \<noteq> 0 then (Inr ret, buf)
           else if payload_len packet < 10 then (Inr (- EINVAL), buf)
           else
             (case buf of
                None \<Rightarrow> (Inr 0, None)
              | Some b \<Rightarrow>
                  (case memcpy b info (nat (min (payload_len packet - 1) 9)) of
                     Inl f \<Rightarrow> (Inl f, buf)
                   | Inr b' \<Rightarrow> (Inr 0, Some b')))))"

definition wimod_hci_get_device_info ::
  "wimod_device \<Rightarrow> nat \<Rightarrow> u8 list option \<Rightarrow> nat \<Rightarrow> u8 list list \<Rightarrow>
   (fault + int) \<times> u8 list option \<times> wimod_device" where
  "wimod_hci_get_device_info wmdev p buf timeout rx =
     (let packet = hci_waiter DEVMGMT_ID DEVMGMT_MSG_GET_DEVICE_INFO_RSP;
          wmdev = wimod_hci_add_dispatcher wmdev p packet
      in case wimod_hci_send (serdev wmdev) DEVMGMT_ID DEVMGMT_MSG_GET_DEVICE_INFO_REQ [] of
        (ret, sdev) \<Rightarrow>
          (let wmdev = wmdev\<lparr>serdev := sdev\<rparr> in
           if ret \<noteq> 0 then (Inr ret, buf, wimod_hci_remove_dispatcher wmdev p)
           else
             (case serdev_receive wmdev [] rx [] of
                Inl f \<Rightarrow> (Inl f, buf, wmdev)
              | Inr (pending, tr, wmdev) \<Rightarrow>
                  (case map_of (packet_dispatchers wmdev) p of
                     None \<Rightarrow> (Inl Bad_dispatcher, buf, wmdev)
                   | Some d \<Rightarrow>
                       (case wait_for_completion_timeout (container d) timeout of
                          (timeout, packet) \<Rightarrow>
                            (let wmdev = wimod_hci_remove_dispatcher wmdev p in
                             if timeout = 0 then (Inr (- ETIMEDOUT), buf, wmdev)
                             else
                               (case get_device_info_response packet buf of
                                  (r, buf') \<Rightarrow> (r, buf', wmdev))))))))"

text \<open>
  Line 238 as the receive path sees it. The caller's \<open>packet\<close> is the object the
  registered dispatcher is part of, so from the return of the wait until line 239
  unlinks it the registry holds the dispatcher at address \<open>p\<close> with the completion as
  the wait left it.
\<close>

definition waiter_after_wait :: "wimod_device \<Rightarrow> nat \<Rightarrow> nat \<Rightarrow> wimod_device" where
  "waiter_after_wait wmdev p timeout =
     wmdev\<lparr>packet_dispatchers :=
       map (\<lambda>(a, e). if a = p
                       then (a, e\<lparr>container := snd (wait_for_completion_timeout (container e) timeout)\<rparr>)
                       else (a, e))
         (packet_dispatchers wmdev)\<rparr>"

subsection \<open>Notions the properties are stated with\<close>

text \<open>
  What \<open>slip_send_data\<close> puts on the wire for a buffer when every write succeeds: each
  byte, with \<open>SLIP_END\<close> and \<open>SLIP_ESC\<close> replaced by their two-byte escapes.
\<close>

definition slip_escape :: "u8 \<Rightarrow> u8 list" where
  "slip_escape b =
     (if b = SLIP_END then [SLIP_ESC, SLIP_ESC_END]
      else if b = SLIP_ESC then [SLIP_ESC, SLIP_ESC_ESC]
      else [b])"

definition slip_encode :: "u8 list \<Rightarrow> u8 list" where
  "slip_encode buf = concat (map slip_escape buf)"

text \<open>The bytes accumulated in the receive buffer: \<open>rx_buf[0 .. rx_len - 1]\<close>.\<close>

definition rx_content :: "wimod_device \<Rightarrow> u8 list" where
  "rx_content wmdev = take (nat (rx_len wmdev)) (rx_buf wmdev)"

text \<open>The device with \<open>g\<close> accumulated: \<open>g\<close> at the start of the array, the rest of the array as it was.\<close>

definition rx_filled :: "wimod_device \<Rightarrow> u8 list \<Rightarrow> wimod_device" where
  "rx_filled wmdev g =
     wmdev\<lparr>rx_buf := g @ drop (length g) (rx_buf wmdev), rx_len := int (length g)\<rparr>"

text \<open>The receive state is in range: \<open>rx_len\<close> is an index into the array or its size.\<close>

definition rx_inv :: "wimod_device \<Rightarrow> bool" where
  "rx_inv wmdev =
     (0 \<le> rx_len wmdev \<and> rx_len wmdev \<le> int WIMOD_HCI_PACKET_MAX \<and>
      length (rx_buf wmdev) = WIMOD_HCI_PACKET_MAX)"

text \<open>A byte that is neither delimiter nor escape.\<close>

definition slip_literal :: "u8 \<Rightarrow> bool" where
  "slip_literal b = (b \<noteq> SLIP_END \<and> b \<noteq> SLIP_ESC)"

text \<open>
  One iteration of the loop of \<open>wimod_receive_buf\<close> as a function of the loop variables:
  the new device, what is left of the chunk, the new scan index, the number of bytes
  consumed and the packets processed in this iteration. The loop is this step repeated
  (lemma \<open>loop_unroll\<close>).
\<close>

definition wimod_receive_step ::
  "wimod_device \<Rightarrow> u8 list \<Rightarrow> nat \<Rightarrow> fault + (wimod_device \<times> u8 list \<times> nat \<times> int \<times> rx_trace)" where
  "wimod_receive_step wmdev data i =
     (if rx_esc wmdev then
        (case (if data ! i = SLIP_ESC_END then rx_store (wmdev\<lparr>rx_esc := False\<rparr>) [SLIP_END]
               else if data ! i = SLIP_ESC_ESC then rx_store (wmdev\<lparr>rx_esc := False\<rparr>) [SLIP_ESC]
               else Inr (wmdev\<lparr>rx_esc := False\<rparr>)) of
           Inl f \<Rightarrow> Inl f
         | Inr wmdev1 \<Rightarrow> Inr (wmdev1, drop (i + 1) data, 0, int i + 1, []))
      else if data ! i \<noteq> SLIP_END \<and> data ! i \<noteq> SLIP_ESC then Inr (wmdev, data, i + 1, 0, [])
      else
        (case (if i > 0 then rx_store wmdev (take i data) else Inr wmdev) of
           Inl f \<Rightarrow> Inl f
         | Inr wmdev1 \<Rightarrow>
             if data ! i = SLIP_END \<and> rx_len wmdev1 > 0 then
               (case wimod_process_packet wmdev1 (take (nat (rx_len wmdev1)) (rx_buf wmdev1)) of
                  (out, wmdev2) \<Rightarrow>
                    Inr (wmdev2\<lparr>rx_len := 0\<rparr>, drop (i + 1) data, 0, int i + 1,
                         [(take (nat (rx_len wmdev1)) (rx_buf wmdev1), out)]))
             else if data ! i = SLIP_ESC then
               Inr (wmdev1\<lparr>rx_esc := True\<rparr>, drop (i + 1) data, 0, int i + 1, [])
             else Inr (wmdev1, drop (i + 1) data, 0, int i + 1, [])))"

section \<open>Properties\<close>

subsection \<open>The frame check sequence\<close>



lemma ff_mask: "(0xff :: u16) = mask 8"
  by (simp add: mask_eq_exp_minus_1)

lemma and_ff: "(x :: u16) AND 0xff = take_bit 8 x"
  by (simp add: ff_mask take_bit_eq_mask)

lemma ucast_ucast_u8: "ucast (ucast (x :: u16) :: u8) = (take_bit 8 x :: u16)"
  by (rule bit_word_eqI) (auto simp: bit_simps)

lemma ucast_xor_u8: "(ucast (c XOR d :: u8) :: u16) = ucast c XOR ucast d"
  by (rule bit_word_eqI) (auto simp: bit_simps)

lemma not_hi: "drop_bit 8 (NOT x) = drop_bit 8 x XOR (0xff :: u16)"
  unfolding ff_mask by (rule bit_word_eqI) (auto simp: bit_simps dest: bit_imp_le_length)

lemma take_drop_8: "take_bit 8 (drop_bit 8 (x :: u16)) = drop_bit 8 x"
  by (rule bit_word_eqI) (auto simp: bit_simps dest: bit_imp_le_length)

lemma drop_drop_8: "drop_bit 8 (drop_bit 8 (x :: u16)) = 0"
  by (rule bit_word_eqI) (auto simp: bit_simps)

lemma crc_step_xor: "crc_step (x XOR y) = crc_step x XOR crc_step y"
  unfolding crc_step_def by (auto simp: bit_xor_iff ac_simps)

lemma crc_ccitt_table_xor: "crc_ccitt_table (x XOR y) = crc_ccitt_table x XOR crc_ccitt_table y"
  by (simp add: crc_ccitt_table_def crc_step_xor)

lemma crc_ccitt_byte_xor:
  "crc_ccitt_byte (a XOR b) (c XOR d) = crc_ccitt_byte a c XOR crc_ccitt_byte b d"
  by (simp add: crc_ccitt_byte_def and_ff ucast_xor_u8 crc_ccitt_table_xor ac_simps
      flip: crc_ccitt_table_xor)

lemma crc_ccitt_table_ff: "crc_ccitt_table 0xff = 0x0f78"
  by (simp add: crc_ccitt_table_def crc_step_def)

lemma crc_ccitt_table_87: "crc_ccitt_table 0x87 = 0xF0B7"
  by (simp add: crc_ccitt_table_def crc_step_def)

lemma crc_byte_lo: "crc_ccitt_byte crc (ucast (NOT crc)) = drop_bit 8 crc XOR 0x0f78"
proof -
  have "take_bit 8 (crc XOR take_bit 8 (NOT crc)) = (0xff :: u16)"
    unfolding ff_mask by (rule bit_word_eqI) (auto simp: bit_simps)
  then show ?thesis
    by (simp add: crc_ccitt_byte_def and_ff ucast_ucast_u8 crc_ccitt_table_ff)
qed

lemma crc_byte_hi:
  "crc_ccitt_byte (drop_bit 8 crc XOR 0x0f78) (ucast (drop_bit 8 (NOT crc))) = 0xF0B8"
proof -
  have "take_bit 8 ((drop_bit 8 crc XOR 0x0f78) XOR take_bit 8 (drop_bit 8 (NOT crc))) = (0x87 :: u16)"
  proof -
    have "(drop_bit 8 crc XOR 0x0f78) XOR (drop_bit 8 crc XOR (0xff :: u16)) = 0x0f78 XOR 0xff"
      by (simp add: xor.left_commute xor.assoc)
    then show ?thesis
      by (simp add: take_drop_8 not_hi)
  qed
  then show ?thesis
    by (simp add: crc_ccitt_byte_def and_ff ucast_ucast_u8 crc_ccitt_table_87 drop_drop_8)
qed

lemma crc_step_even: "\<not> bit x 0 \<Longrightarrow> crc_step x = drop_bit 1 x"
  by (simp add: crc_step_def)

lemma crc_step_drop:
  assumes "take_bit 8 z = (0 :: u16)" "k < 8"
  shows "crc_step (drop_bit k z) = drop_bit (Suc k) z"
proof -
  have "\<not> bit (take_bit 8 z) k" using assms by simp
  then have "\<not> bit z k" using assms(2) by (simp add: bit_simps)
  then have "\<not> bit (drop_bit k z) 0" by (simp add: bit_simps)
  then show ?thesis by (simp add: crc_step_even)
qed

lemma crc_table_high:
  assumes "take_bit 8 z = (0 :: u16)"
  shows "crc_ccitt_table z = drop_bit 8 z"
proof -
  have s: "\<And>k. k < 8 \<Longrightarrow> crc_step (drop_bit k z) = drop_bit (Suc k) z"
    using assms by (rule crc_step_drop)
  have "crc_step z = drop_bit 1 z" using s [of 0] by simp
  then show ?thesis
    using s [of 1] s [of 2] s [of 3] s [of 4] s [of 5] s [of 6] s [of 7]
    by (simp add: crc_ccitt_table_def numeral_eq_Suc)
qed

lemma split_word: "(z :: u16) = push_bit 8 (drop_bit 8 z) XOR take_bit 8 z"
  by (rule bit_word_eqI) (auto simp: bit_simps)

lemma crc_byte_zero_table: "crc_ccitt_byte z 0 = crc_ccitt_table z"
proof -
  have lo: "take_bit 8 (push_bit 8 (drop_bit 8 z)) = (0 :: u16)"
    by (rule bit_word_eqI) (auto simp: bit_simps)
  have hi: "drop_bit 8 (push_bit 8 (drop_bit 8 z)) = drop_bit 8 z"
    by (rule bit_word_eqI) (auto simp: bit_simps dest: bit_imp_le_length)
  have "crc_ccitt_table z =
        crc_ccitt_table (push_bit 8 (drop_bit 8 z)) XOR crc_ccitt_table (take_bit 8 z)"
    using split_word [of z] crc_ccitt_table_xor by metis
  also have "\<dots> = drop_bit 8 z XOR crc_ccitt_table (take_bit 8 z)"
    by (simp add: crc_table_high [OF lo] hi)
  finally show ?thesis
    by (simp add: crc_ccitt_byte_def and_ff)
qed

lemma crc_step_zero: "crc_step w = 0 \<Longrightarrow> w = 0"
proof (cases "bit w 0")
  case True
  assume "crc_step w = 0"
  with True have "drop_bit 1 w XOR 0x8408 = 0" by (simp add: crc_step_def)
  then have "bit (drop_bit 1 w XOR 0x8408) 15 = bit (0 :: u16) 15" by simp
  then show ?thesis by (auto simp: bit_simps dest: bit_imp_le_length)
next
  case False
  assume "crc_step w = 0"
  with False have d: "drop_bit 1 w = 0" by (simp add: crc_step_def)
  show ?thesis
  proof (rule bit_word_eqI)
    fix n assume "n < LENGTH(16)"
    show "bit w n = bit (0 :: u16) n"
    proof (cases n)
      case 0 with False show ?thesis by simp
    next
      case (Suc m)
      have "bit (drop_bit 1 w) m = bit w (Suc m)" by (simp add: bit_simps)
      with d Suc show ?thesis by simp
    qed
  qed
qed

lemma crc_table_zero: "crc_ccitt_table w = 0 \<Longrightarrow> w = 0"
  unfolding crc_ccitt_table_def by (blast dest: crc_step_zero)

lemma xor_eq_0: "(u :: u16) XOR v = 0 \<Longrightarrow> u = v"
proof -
  assume "u XOR v = 0"
  then have "(u XOR v) XOR v = 0 XOR v" by simp
  then show "u = v" by (simp add: xor.assoc)
qed

lemma crc_byte_inj: "crc_ccitt_byte u c = crc_ccitt_byte v c \<Longrightarrow> u = v"
proof -
  assume "crc_ccitt_byte u c = crc_ccitt_byte v c"
  then have "crc_ccitt_byte u c XOR crc_ccitt_byte v c = 0" by simp
  then have "crc_ccitt_byte (u XOR v) (c XOR c) = 0" by (simp only: crc_ccitt_byte_xor)
  then have "crc_ccitt_table (u XOR v) = 0" by (simp add: crc_byte_zero_table)
  then have "u XOR v = 0" by (rule crc_table_zero)
  then show "u = v" by (rule xor_eq_0)
qed

lemma crc_ccitt_inj: "crc_ccitt u ys = crc_ccitt v ys \<Longrightarrow> u = v"
  by (induction ys arbitrary: u v) (auto simp: crc_ccitt_def dest: crc_byte_inj)

lemma crc_byte_bit: "b < 8 \<Longrightarrow> crc_ccitt_byte 0 (2 ^ b) \<noteq> 0"
proof -
  assume "b < 8"
  then consider "b = 0" | "b = 1" | "b = 2" | "b = 3" | "b = 4" | "b = 5" | "b = 6" | "b = 7"
    by linarith
  then show ?thesis
    by cases (simp_all add: crc_ccitt_byte_def crc_ccitt_table_def crc_step_def)
qed

lemma crc_byte_flip: "b < 8 \<Longrightarrow> crc_ccitt_byte u (c XOR 2 ^ b) \<noteq> crc_ccitt_byte u c"
proof
  assume b: "b < 8" and "crc_ccitt_byte u (c XOR 2 ^ b) = crc_ccitt_byte u c"
  then have "crc_ccitt_byte u (c XOR 2 ^ b) XOR crc_ccitt_byte u c = 0" by simp
  then have "crc_ccitt_byte (u XOR u) ((c XOR 2 ^ b) XOR c) = 0" by (simp only: crc_ccitt_byte_xor)
  moreover have "(c XOR 2 ^ b) XOR c = 2 ^ b" by (simp add: xor.commute xor.left_commute)
  ultimately have "crc_ccitt_byte 0 (2 ^ b) = 0" by simp
  then show False using crc_byte_bit [OF b] by simp
qed

lemma crc_ccitt_Nil: "crc_ccitt crc [] = crc"
  by (simp add: crc_ccitt_def)

lemma crc_ccitt_Cons: "crc_ccitt crc (c # cs) = crc_ccitt (crc_ccitt_byte crc c) cs"
  by (simp add: crc_ccitt_def)

lemma crc_ccitt_append: "crc_ccitt crc (xs @ ys) = crc_ccitt (crc_ccitt crc xs) ys"
  by (simp add: crc_ccitt_def)

lemma hci_fcs_eq: "hci_fcs dst msg pl = NOT (crc_ccitt 0xffff (dst # msg # pl))"
  by (cases pl) (simp_all add: hci_fcs_def Let_def crc_ccitt_Cons crc_ccitt_Nil)

lemma crc_residual: "NOT (crc_ccitt crc (xs @ le16_bytes (NOT (crc_ccitt crc xs)))) = 0x0f47"
  by (simp add: crc_ccitt_append le16_bytes_def crc_ccitt_Cons crc_ccitt_Nil crc_byte_lo crc_byte_hi)

lemma hci_frame_residual: "NOT (crc_ccitt 0xffff (hci_frame dst msg pl)) = 0x0f47"
  using crc_residual [of "0xffff" "dst # msg # pl"]
  by (simp add: hci_frame_def hci_fcs_eq)


lemma crc_ccitt_flip:
  assumes "j < length xs" "b < 8"
  shows "crc_ccitt crc (xs[j := xs ! j XOR 2 ^ b]) \<noteq> crc_ccitt crc xs"
proof -
  have xs: "xs = take j xs @ xs ! j # drop (Suc j) xs"
    using assms(1) by (simp add: id_take_nth_drop)
  have ys: "xs[j := xs ! j XOR 2 ^ b] = take j xs @ (xs ! j XOR 2 ^ b) # drop (Suc j) xs"
    using assms(1) by (simp add: upd_conv_take_nth_drop)
  let ?a = "crc_ccitt crc (take j xs)"
  have "crc_ccitt (crc_ccitt_byte ?a (xs ! j XOR 2 ^ b)) (drop (Suc j) xs) \<noteq>
        crc_ccitt (crc_ccitt_byte ?a (xs ! j)) (drop (Suc j) xs)"
    using crc_byte_flip [OF assms(2)] crc_ccitt_inj by blast
  then have "crc_ccitt crc (take j xs @ (xs ! j XOR 2 ^ b) # drop (Suc j) xs) \<noteq>
        crc_ccitt crc (take j xs @ xs ! j # drop (Suc j) xs)"
    by (simp add: crc_ccitt_append crc_ccitt_Cons)
  then show ?thesis using xs ys by simp
qed

lemma process_packet_accepts:
  "4 \<le> length data \<Longrightarrow>
   is_Dispatched (fst (wimod_process_packet wmdev data)) \<longleftrightarrow> NOT (crc_ccitt 0xffff data) = 0x0f47"
  by (simp add: wimod_process_packet_def split: prod.splits)

lemma not_inj_u16: "NOT (x :: u16) = NOT y \<Longrightarrow> x = y"
proof -
  assume "NOT x = NOT y"
  then have "NOT (NOT x) = NOT (NOT y)" by (rule arg_cong)
  then show "x = y" by simp
qed

lemma hci_frame_flip:
  assumes "j < length (hci_frame dst msg pl)" "b < 8"
  shows "NOT (crc_ccitt 0xffff ((hci_frame dst msg pl)[j := hci_frame dst msg pl ! j XOR 2 ^ b]))
         \<noteq> 0x0f47"
proof
  assume "NOT (crc_ccitt 0xffff ((hci_frame dst msg pl)[j := hci_frame dst msg pl ! j XOR 2 ^ b]))
          = 0x0f47"
  then have "NOT (crc_ccitt 0xffff ((hci_frame dst msg pl)[j := hci_frame dst msg pl ! j XOR 2 ^ b]))
          = NOT (crc_ccitt 0xffff (hci_frame dst msg pl))"
    by (simp only: hci_frame_residual)
  then have "crc_ccitt 0xffff ((hci_frame dst msg pl)[j := hci_frame dst msg pl ! j XOR 2 ^ b])
          = crc_ccitt 0xffff (hci_frame dst msg pl)"
    by (rule not_inj_u16)
  then show False using crc_ccitt_flip [OF assms] by simp
qed

text \<open>
  Claim C2 (checksum fixed residual). The checksum \<open>wimod_hci_send\<close> appends is the
  complement of the CRC, started at \<open>0xFFFF\<close>, over the two address bytes and the
  payload. Running the CRC over the whole frame, checksum bytes included, and
  complementing gives \<open>0x0F47\<close>. Flipping any one bit of the frame (bit \<open>b\<close> of byte
  \<open>j\<close>) gives another residual. \<open>wimod_process_packet\<close> goes on to the dispatchers for a
  packet of at least four bytes exactly when its residual is \<open>0x0F47\<close>.
\<close>

theorem C2_checksum_residual:
  "hci_fcs dst msg pl = NOT (crc_ccitt 0xffff (dst # msg # pl)) \<and>
   NOT (crc_ccitt 0xffff (hci_frame dst msg pl)) = 0x0f47 \<and>
   (j < length (hci_frame dst msg pl) \<and> b < 8 \<longrightarrow>
     NOT (crc_ccitt 0xffff ((hci_frame dst msg pl)[j := hci_frame dst msg pl ! j XOR 2 ^ b]))
       \<noteq> 0x0f47) \<and>
   (4 \<le> length data \<longrightarrow>
     (is_Dispatched (fst (wimod_process_packet wmdev data)) \<longleftrightarrow>
      NOT (crc_ccitt 0xffff data) = 0x0f47))"
proof (intro conjI impI)
  show "hci_fcs dst msg pl = NOT (crc_ccitt 0xffff (dst # msg # pl))"
    by (rule hci_fcs_eq)
  show "NOT (crc_ccitt 0xffff (hci_frame dst msg pl)) = 0x0f47"
    by (rule hci_frame_residual)
  show "NOT (crc_ccitt 0xffff ((hci_frame dst msg pl)[j := hci_frame dst msg pl ! j XOR 2 ^ b]))
       \<noteq> 0x0f47" if "j < length (hci_frame dst msg pl) \<and> b < 8"
    using that by (simp add: hci_frame_flip)
  show "is_Dispatched (fst (wimod_process_packet wmdev data)) \<longleftrightarrow>
      NOT (crc_ccitt 0xffff data) = 0x0f47" if "4 \<le> length data"
    using that by (rule process_packet_accepts)
qed


lemma crc_ccitt_byte_ping1: "crc_ccitt_byte 0xffff 1 = 0x1E0E"
  by (simp add: crc_ccitt_byte_def crc_ccitt_table_def crc_step_def)

lemma crc_ccitt_byte_ping2: "crc_ccitt_byte 0x1E0E 1 = 0xF8E9"
  by (simp add: crc_ccitt_byte_def crc_ccitt_table_def crc_step_def)

lemma hci_fcs_ping: "hci_fcs 1 1 [] = 0x0716"
  by (simp add: hci_fcs_def crc_ccitt_byte_ping1 crc_ccitt_byte_ping2)

lemma hci_frame_ping: "hci_frame 1 1 [] = [1, 1, 0x16, 0x07]"
  by (simp add: hci_frame_def hci_fcs_ping le16_bytes_def)

theorem C2_checksum_residual_witness:
  "hci_fcs 1 1 [] = NOT (crc_ccitt 0xffff [1, 1]) \<and>
   NOT (crc_ccitt 0xffff [1, 1, 0x16, 0x07]) = 0x0f47 \<and>
   NOT (crc_ccitt 0xffff [0, 1, 0x16, 0x07]) \<noteq> 0x0f47 \<and>
   is_Dispatched (fst (wimod_process_packet
     (wimod_device_init \<lparr>tx = [], wr_results = []\<rparr> []) [1, 1, 0x16, 0x07]))"
  using C2_checksum_residual [of 1 1 "[]" 0 0 "[1, 1, 0x16, 0x07]"
          "wimod_device_init \<lparr>tx = [], wr_results = []\<rparr> []"]
  by (simp add: hci_frame_ping)

subsection \<open>The completion handler\<close>

lemma dispatch_completion_done:
  "completion_done disp \<Longrightarrow> wimod_hci_packet_dispatch_completion data disp km = (disp, km)"
  by (simp add: wimod_hci_packet_dispatch_completion_def)

lemma dispatch_completion_fires:
  "\<not> completion_done disp \<Longrightarrow>
   comp_done (fst (wimod_hci_packet_dispatch_completion data disp km)) = 1"
  by (simp add: wimod_hci_packet_dispatch_completion_def completion_done_def complete_def
      Let_def split: prod.splits)

lemma dispatch_completion_idem:
  "completion_done (fst (wimod_hci_packet_dispatch_completion data disp km))"
  by (simp add: wimod_hci_packet_dispatch_completion_def completion_done_def complete_def
      Let_def split: prod.splits)

lemma dispatch_fold_done:
  "completion_done disp \<Longrightarrow>
   fold (\<lambda>d (c, k). wimod_hci_packet_dispatch_completion d c k) ds (disp, km) = (disp, km)"
  by (induction ds) (simp_all add: dispatch_completion_done)

lemma dispatch_fold_first:
  "fold (\<lambda>d (c, k). wimod_hci_packet_dispatch_completion d c k) (d # ds) (disp, km) =
   wimod_hci_packet_dispatch_completion d disp km"
proof -
  obtain c k where ck: "wimod_hci_packet_dispatch_completion d disp km = (c, k)"
    by (cases "wimod_hci_packet_dispatch_completion d disp km")
  then have "completion_done c" using dispatch_completion_idem [of d disp km] by simp
  then show ?thesis using ck by (simp add: dispatch_fold_done)
qed

subsection \<open>The receive loop, step by step\<close>

declare wimod_receive_loop.simps [simp del]
declare slip_send_data_loop.simps [simp del]

lemma packet_max: "WIMOD_HCI_PACKET_MAX = 610"
  by (simp add: WIMOD_HCI_PACKET_MAX_def WIMOD_HCI_PAYLOAD_MAX_def)

lemma size_t_cap: "0 \<le> rl \<Longrightarrow> rl \<le> 610 \<Longrightarrow> size_t (610 - rl) = nat (610 - rl)"
  by (simp add: size_t_def)

lemma rx_cap: "rx_inv wm \<Longrightarrow> size_t (int WIMOD_HCI_PACKET_MAX - rx_len wm) = nat (610 - rx_len wm)"
  by (simp add: rx_inv_def packet_max size_t_cap)

lemma rx_filled_sel [simp]:
  "rx_len (rx_filled wm g) = int (length g)"
  "rx_esc (rx_filled wm g) = rx_esc wm"
  "packet_dispatchers (rx_filled wm g) = packet_dispatchers wm"
  "kmem (rx_filled wm g) = kmem wm"
  "serdev (rx_filled wm g) = serdev wm"
  "rx_buf (rx_filled wm g) = g @ drop (length g) (rx_buf wm)"
  by (simp_all add: rx_filled_def)

lemma rx_filled_esc [simp]: "rx_filled (wm\<lparr>rx_esc := b\<rparr>) g = (rx_filled wm g)\<lparr>rx_esc := b\<rparr>"
  by (simp add: rx_filled_def)

lemma rx_content_esc [simp]: "rx_content (wm\<lparr>rx_esc := b\<rparr>) = rx_content wm"
  by (simp add: rx_content_def)

lemma rx_inv_esc [simp]: "rx_inv (wm\<lparr>rx_esc := b\<rparr>) = rx_inv wm"
  by (simp add: rx_inv_def)

lemma rx_content_filled: "length g \<le> length (rx_buf wm) \<Longrightarrow> rx_content (rx_filled wm g) = g"
  by (simp add: rx_content_def)

lemma rx_content_length: "rx_inv wm \<Longrightarrow> length (rx_content wm) = nat (rx_len wm)"
  by (auto simp: rx_content_def rx_inv_def)

lemma rx_inv_filled:
  "length (rx_buf wm) = WIMOD_HCI_PACKET_MAX \<Longrightarrow> length g \<le> WIMOD_HCI_PACKET_MAX \<Longrightarrow>
   rx_inv (rx_filled wm g)"
  by (simp add: rx_inv_def)

lemma rx_filled_filled: "length g \<le> length h \<Longrightarrow> rx_filled (rx_filled wm g) h = rx_filled wm h"
  by (simp add: rx_filled_def)

lemma rx_filled_content: "rx_inv wm \<Longrightarrow> rx_filled wm (rx_content wm) = wm"
proof -
  assume "rx_inv wm"
  then have "min WIMOD_HCI_PACKET_MAX (nat (rx_len wm)) = nat (rx_len wm)"
    "length (rx_buf wm) = WIMOD_HCI_PACKET_MAX" "0 \<le> rx_len wm"
    by (auto simp: rx_inv_def)
  then show ?thesis
    by (simp add: rx_filled_def rx_content_def)
qed

lemma rx_store_filled:
  "rx_inv wm \<Longrightarrow> rx_len wm + int (length xs) \<le> 610 \<Longrightarrow>
   rx_store wm xs = Inr (rx_filled wm (rx_content wm @ xs))"
  by (auto simp: rx_store_def rx_filled_def rx_content_def rx_inv_def packet_max min_def)


lemma loop_exit:
  "\<not> i < min (length data) (size_t (int WIMOD_HCI_PACKET_MAX - rx_len wm)) \<Longrightarrow>
   wimod_receive_loop wm data i len tr = Inr (len, tr, wm)"
  by (subst wimod_receive_loop.simps) auto

lemma loop_literal:
  "i < min (length data) (size_t (int WIMOD_HCI_PACKET_MAX - rx_len wm)) \<Longrightarrow>
   \<not> rx_esc wm \<Longrightarrow> slip_literal (data ! i) \<Longrightarrow>
   wimod_receive_loop wm data i len tr = wimod_receive_loop wm data (i + 1) len tr"
  by (subst wimod_receive_loop.simps) (simp add: slip_literal_def)

lemma loop_escaped:
  "i < min (length data) (size_t (int WIMOD_HCI_PACKET_MAX - rx_len wm)) \<Longrightarrow> rx_esc wm \<Longrightarrow>
   wimod_receive_loop wm data i len tr =
   (case (if data ! i = SLIP_ESC_END then rx_store (wm\<lparr>rx_esc := False\<rparr>) [SLIP_END]
          else if data ! i = SLIP_ESC_ESC then rx_store (wm\<lparr>rx_esc := False\<rparr>) [SLIP_ESC]
          else Inr (wm\<lparr>rx_esc := False\<rparr>)) of
      Inl f \<Rightarrow> Inl f
    | Inr wm1 \<Rightarrow> wimod_receive_loop wm1 (drop (i + 1) data) 0 (len + int i + 1) tr)"
  by (subst wimod_receive_loop.simps) simp

lemma loop_delim:
  "i < min (length data) (size_t (int WIMOD_HCI_PACKET_MAX - rx_len wm)) \<Longrightarrow>
   \<not> rx_esc wm \<Longrightarrow> \<not> slip_literal (data ! i) \<Longrightarrow>
   wimod_receive_loop wm data i len tr =
   (case (if i > 0 then rx_store wm (take i data) else Inr wm) of
      Inl f \<Rightarrow> Inl f
    | Inr wm1 \<Rightarrow>
        if data ! i = SLIP_END \<and> rx_len wm1 > 0 then
          (case wimod_process_packet wm1 (take (nat (rx_len wm1)) (rx_buf wm1)) of
             (out, wm2) \<Rightarrow>
               wimod_receive_loop (wm2\<lparr>rx_len := 0\<rparr>) (drop (i + 1) data) 0 (len + int i + 1)
                 (tr @ [(take (nat (rx_len wm1)) (rx_buf wm1), out)]))
        else if data ! i = SLIP_ESC then
          wimod_receive_loop (wm1\<lparr>rx_esc := True\<rparr>) (drop (i + 1) data) 0 (len + int i + 1) tr
        else wimod_receive_loop wm1 (drop (i + 1) data) 0 (len + int i + 1) tr)"
  by (subst wimod_receive_loop.simps) (auto simp: slip_literal_def)

text \<open>At a delimiter, the literal run before it is stored and the delimiter handled as if first.\<close>

lemma loop_flush:
  assumes inv: "rx_inv wm" and esc: "\<not> rx_esc wm"
    and lits: "\<forall>b \<in> set lits. slip_literal b"
    and d: "\<not> slip_literal d"
    and fit: "rx_len wm + int (length lits) < 610"
  shows "wimod_receive_loop wm (lits @ d # rest) (length lits) len tr =
         wimod_receive_loop (rx_filled wm (rx_content wm @ lits)) (d # rest) 0
           (len + int (length lits)) tr"
proof (cases "lits = []")
  case True
  then show ?thesis using inv by (simp add: rx_filled_content)
next
  case False
  let ?wm1 = "rx_filled wm (rx_content wm @ lits)"
  have len1: "length (rx_content wm @ lits) \<le> WIMOD_HCI_PACKET_MAX"
    using inv fit by (auto simp: rx_content_length packet_max rx_inv_def)
  have inv1: "rx_inv ?wm1"
    using inv len1 by (simp add: rx_inv_filled rx_inv_def)
  have st: "rx_store wm lits = Inr ?wm1"
    using inv fit by (simp add: rx_store_filled)
  have g: "length lits < min (length (lits @ d # rest)) (size_t (int WIMOD_HCI_PACKET_MAX - rx_len wm))"
    using inv fit by (simp add: rx_cap rx_inv_def)
  have g1: "0 < min (length (d # rest)) (size_t (int WIMOD_HCI_PACKET_MAX - rx_len ?wm1))"
    using rx_cap [OF inv1] inv fit by (auto simp: rx_content_length rx_inv_def)
  have c1: "rx_content ?wm1 = rx_content wm @ lits"
    using len1 inv by (simp add: rx_content_filled rx_inv_def)
  have t1: "take (nat (rx_len ?wm1)) (rx_buf ?wm1) = rx_content wm @ lits"
    using c1 by (simp add: rx_content_def)
  let ?K = "if d = SLIP_END \<and> rx_len ?wm1 > 0 then
          (case wimod_process_packet ?wm1 (take (nat (rx_len ?wm1)) (rx_buf ?wm1)) of
             (out, wm2) \<Rightarrow>
               wimod_receive_loop (wm2\<lparr>rx_len := 0\<rparr>) rest 0 (len + int (length lits) + 1)
                 (tr @ [(take (nat (rx_len ?wm1)) (rx_buf ?wm1), out)]))
        else if d = SLIP_ESC then
          wimod_receive_loop (?wm1\<lparr>rx_esc := True\<rparr>) rest 0 (len + int (length lits) + 1) tr
        else wimod_receive_loop ?wm1 rest 0 (len + int (length lits) + 1) tr"
  have nl: "\<not> slip_literal ((lits @ d # rest) ! length lits)" using d by simp
  have nl1: "\<not> slip_literal ((d # rest) ! 0)" using d by simp
  have esc1: "\<not> rx_esc ?wm1" using esc by simp
  have L: "wimod_receive_loop wm (lits @ d # rest) (length lits) len tr = ?K"
    unfolding loop_delim [OF g esc nl] using False st by simp
  have R: "wimod_receive_loop ?wm1 (d # rest) 0 (len + int (length lits)) tr = ?K"
    unfolding loop_delim [OF g1 esc1 nl1] by simp
  show ?thesis using L R by simp
qed


lemma esc_reset: "\<not> rx_esc wm \<Longrightarrow> wm\<lparr>rx_esc := False\<rparr> = wm"
  by (cases wm) simp

lemma slip_consts [simp]:
  "SLIP_END \<noteq> SLIP_ESC" "SLIP_ESC \<noteq> SLIP_END"
  "\<not> slip_literal SLIP_END" "\<not> slip_literal SLIP_ESC"
  "SLIP_ESC_END \<noteq> SLIP_ESC_ESC" "SLIP_ESC_ESC \<noteq> SLIP_ESC_END"
  by (simp_all add: SLIP_END_def SLIP_ESC_def SLIP_ESC_END_def SLIP_ESC_ESC_def slip_literal_def)

lemma slip_encode_simps [simp]:
  "slip_encode [] = []"
  "slip_literal b \<Longrightarrow> slip_encode (b # bs) = b # slip_encode bs"
  "slip_encode (SLIP_END # bs) = SLIP_ESC # SLIP_ESC_END # slip_encode bs"
  "slip_encode (SLIP_ESC # bs) = SLIP_ESC # SLIP_ESC_ESC # slip_encode bs"
  by (simp_all add: slip_encode_def slip_escape_def slip_literal_def)

lemma slip_encode_append: "slip_encode (xs @ ys) = slip_encode xs @ slip_encode ys"
  by (simp add: slip_encode_def)

text \<open>An escape pair: the decoded byte is stored.\<close>

lemma loop_escape_pair:
  assumes inv: "rx_inv wm" and esc: "\<not> rx_esc wm" and fit: "rx_len wm < 610"
    and c: "(e = SLIP_ESC_END \<and> b = SLIP_END) \<or> (e = SLIP_ESC_ESC \<and> b = SLIP_ESC)"
  shows "wimod_receive_loop wm (SLIP_ESC # e # rest) 0 len tr =
         wimod_receive_loop (rx_filled wm (rx_content wm @ [b])) rest 0 (len + 2) tr"
proof -
  let ?wm1 = "wm\<lparr>rx_esc := True\<rparr>"
  have g: "0 < min (length (SLIP_ESC # e # rest)) (size_t (int WIMOD_HCI_PACKET_MAX - rx_len wm))"
    using inv fit by (simp add: rx_cap)
  have g1: "0 < min (length (e # rest)) (size_t (int WIMOD_HCI_PACKET_MAX - rx_len ?wm1))"
    using inv fit rx_cap [of ?wm1] by simp
  have nl: "\<not> slip_literal ((SLIP_ESC # e # rest) ! 0)" by simp
  have st: "rx_store wm [b] = Inr (rx_filled wm (rx_content wm @ [b]))"
    using inv fit by (simp add: rx_store_filled)
  have "wimod_receive_loop wm (SLIP_ESC # e # rest) 0 len tr =
        wimod_receive_loop ?wm1 (e # rest) 0 (len + 1) tr"
    unfolding loop_delim [OF g esc nl] by simp
  also have "\<dots> = wimod_receive_loop (rx_filled wm (rx_content wm @ [b])) rest 0 (len + 2) tr"
    using c st esc by (subst loop_escaped [OF g1]) (auto simp: esc_reset add.commute)
  finally show ?thesis .
qed

lemma loop_decode:
  assumes "rx_inv wm" "\<not> rx_esc wm" "\<forall>b \<in> set lits. slip_literal b" "\<not> slip_literal d"
    and "rx_len wm + int (length lits) + int (length f) < 610"
  shows "wimod_receive_loop wm (lits @ slip_encode f @ d # rest) (length lits) len tr =
         wimod_receive_loop (rx_filled wm (rx_content wm @ lits @ f)) (d # rest) 0
           (len + int (length lits + length (slip_encode f))) tr"
  using assms
proof (induction f arbitrary: wm lits len)
  case Nil
  then show ?case using loop_flush [where wm = wm and lits = lits and d = d] by simp
next
  case (Cons b f)
  show ?case
  proof (cases "slip_literal b")
    case True
    have g: "length lits < min (length (lits @ slip_encode (b # f) @ d # rest))
                (size_t (int WIMOD_HCI_PACKET_MAX - rx_len wm))"
      using Cons.prems True by (simp add: rx_cap rx_inv_def)
    have "wimod_receive_loop wm (lits @ slip_encode (b # f) @ d # rest) (length lits) len tr =
          wimod_receive_loop wm ((lits @ [b]) @ slip_encode f @ d # rest) (length (lits @ [b])) len tr"
      using loop_literal [OF g] Cons.prems(2) True by simp
    also have "\<dots> = wimod_receive_loop (rx_filled wm (rx_content wm @ (lits @ [b]) @ f)) (d # rest) 0
           (len + int (length (lits @ [b]) + length (slip_encode f))) tr"
      using Cons.prems True by (intro Cons.IH) auto
    finally show ?thesis using True by simp
  next
    case False
    then have b: "b = SLIP_END \<or> b = SLIP_ESC" by (auto simp: slip_literal_def)
    define e where "e = (if b = SLIP_END then SLIP_ESC_END else SLIP_ESC_ESC)"
    have enc: "slip_encode (b # f) = SLIP_ESC # e # slip_encode f"
      using b by (auto simp: e_def)
    have c: "(e = SLIP_ESC_END \<and> b = SLIP_END) \<or> (e = SLIP_ESC_ESC \<and> b = SLIP_ESC)"
      using b by (auto simp: e_def)
    let ?wm1 = "rx_filled wm (rx_content wm @ lits)"
    let ?wm2 = "rx_filled ?wm1 (rx_content ?wm1 @ [b])"
    have len1: "length (rx_content wm @ lits) \<le> WIMOD_HCI_PACKET_MAX"
      using Cons.prems by (auto simp: rx_content_length packet_max rx_inv_def)
    have inv1: "rx_inv ?wm1"
      using Cons.prems len1 by (simp add: rx_inv_filled rx_inv_def)
    have c1: "rx_content ?wm1 = rx_content wm @ lits"
      using len1 Cons.prems by (simp add: rx_content_filled rx_inv_def)
    have len2: "length (rx_content wm @ lits @ [b]) \<le> WIMOD_HCI_PACKET_MAX"
      using Cons.prems by (auto simp: rx_content_length packet_max rx_inv_def)
    have wm2: "?wm2 = rx_filled wm (rx_content wm @ lits @ [b])"
      by (simp add: c1 rx_filled_filled)
    have inv2: "rx_inv ?wm2"
      unfolding wm2 using Cons.prems len2 by (simp add: rx_inv_filled rx_inv_def)
    have c2: "rx_content ?wm2 = rx_content wm @ lits @ [b]"
      unfolding wm2 using len2 Cons.prems by (simp add: rx_content_filled rx_inv_def)
    have "wimod_receive_loop wm (lits @ slip_encode (b # f) @ d # rest) (length lits) len tr =
          wimod_receive_loop ?wm1 (SLIP_ESC # e # slip_encode f @ d # rest) 0
            (len + int (length lits)) tr"
      using loop_flush [where wm = wm and lits = lits and d = SLIP_ESC
          and rest = "e # slip_encode f @ d # rest"] Cons.prems
      by (simp add: enc)
    also have "\<dots> = wimod_receive_loop ?wm2 (slip_encode f @ d # rest) 0
            (len + int (length lits) + 2) tr"
      using Cons.prems inv1 c by (intro loop_escape_pair) (auto simp: rx_content_length rx_inv_def)
    also have "\<dots> = wimod_receive_loop (rx_filled ?wm2 (rx_content ?wm2 @ [] @ f)) (d # rest) 0
            (len + int (length lits) + 2 + int (length ([]::u8 list) + length (slip_encode f))) tr"
    proof -
      have fit2: "rx_len ?wm2 + int (length ([]::u8 list)) + int (length f) < 610"
        unfolding wm2 using Cons.prems by (auto simp: rx_content_length rx_inv_def)
      have esc2: "\<not> rx_esc ?wm2" using Cons.prems by simp
      have l0: "\<forall>b \<in> set ([]::u8 list). slip_literal b" by simp
      show ?thesis
        using Cons.IH [OF inv2 esc2 l0 Cons.prems(4) fit2, of "len + int (length lits) + 2"]
        by simp
    qed
    also have "rx_filled ?wm2 (rx_content ?wm2 @ [] @ f) = rx_filled wm (rx_content wm @ lits @ b # f)"
      unfolding c2 unfolding wm2 by (simp add: rx_filled_filled)
    finally show ?thesis by (simp add: enc ac_simps)
  qed
qed

subsection \<open>What the encoder writes\<close>

lemma write_ok: "serdev_device_write sdev buf = (0, sdev') \<Longrightarrow> tx sdev' = tx sdev @ buf"
  by (auto simp: serdev_device_write_def split: list.splits if_splits)

lemma slip_literal_encode: "\<forall>b \<in> set xs. slip_literal b \<Longrightarrow> slip_encode xs = xs"
  by (induction xs) simp_all

lemma literal_run:
  assumes "s \<le> i" "i \<le> length buf" "\<forall>k. s \<le> k \<longrightarrow> k < i \<longrightarrow> slip_literal (buf ! k)"
  shows "\<forall>b \<in> set (take (i - s) (drop s buf)). slip_literal b"
proof
  fix b assume "b \<in> set (take (i - s) (drop s buf))"
  then obtain k where k: "k < length (take (i - s) (drop s buf))" "b = take (i - s) (drop s buf) ! k"
    by (auto simp: in_set_conv_nth)
  then have "k < i - s" by simp
  then have "b = buf ! (s + k)" using k assms by simp
  then show "slip_literal b" using assms \<open>k < i - s\<close> by simp
qed

lemma drop_split:
  assumes "s \<le> i" "i < length buf"
  shows "drop s buf = take (i - s) (drop s buf) @ buf ! i # drop (Suc i) buf"
proof -
  have "drop s buf = take (i - s) (drop s buf) @ drop (i - s) (drop s buf)"
    by (rule append_take_drop_id [symmetric])
  also have "drop (i - s) (drop s buf) = drop i buf" using assms by simp
  also have "\<dots> = buf ! i # drop (Suc i) buf" using assms by (simp add: Cons_nth_drop_Suc)
  finally show ?thesis .
qed

lemma send_loop_tx:
  "slip_send_data_loop sdev buf lst i = (0, sdev') \<Longrightarrow> lst + 1 = int s \<Longrightarrow> s \<le> i \<Longrightarrow>
   i \<le> length buf \<Longrightarrow> (\<forall>k. s \<le> k \<longrightarrow> k < i \<longrightarrow> slip_literal (buf ! k)) \<Longrightarrow>
   tx sdev' = tx sdev @ slip_encode (drop s buf)"
proof (induction sdev buf lst i arbitrary: s rule: slip_send_data_loop.induct)
  case (1 sdev buf lst i)
  note run = literal_run [OF "1.prems"(3,4,5)]
  show ?case
  proof (cases "i < length buf")
    case False
    then have i: "i = length buf" using "1.prems" by simp
    have "serdev_device_write sdev (take (i - s) (drop s buf)) = (0, sdev')"
      using "1.prems"(1,2) False i
      by (subst (asm) slip_send_data_loop.simps) (simp add: segment_def)
    then have "tx sdev' = tx sdev @ take (i - s) (drop s buf)" by (rule write_ok)
    moreover have "take (i - s) (drop s buf) = drop s buf" using i by simp
    ultimately show ?thesis using run slip_literal_encode by simp
  next
    case True
    show ?thesis
    proof (cases "slip_literal (buf ! i)")
      case lit: True
      have "slip_send_data_loop sdev buf lst (i + 1) = (0, sdev')"
        using "1.prems"(1) True lit
        by (subst (asm) slip_send_data_loop.simps) (simp add: slip_literal_def)
      moreover have "\<forall>k. s \<le> k \<longrightarrow> k < i + 1 \<longrightarrow> slip_literal (buf ! k)"
        using "1.prems"(5) lit by (auto simp: less_Suc_eq)
      ultimately show ?thesis
        using "1.IH"(1) [of s] True lit "1.prems" by (simp add: slip_literal_def)
    next
      case nl: False
      define e where "e = (if buf ! i = SLIP_END then SLIP_ESC_END else SLIP_ESC_ESC)"
      obtain r1 sdev1 where w1:
        "serdev_device_write sdev (segment buf (lst + 1) (int i - (lst + 1))) = (r1, sdev1)"
        by (cases "serdev_device_write sdev (segment buf (lst + 1) (int i - (lst + 1)))")
      obtain r2 sdev2 where w2: "serdev_device_write sdev1 [SLIP_ESC, e] = (r2, sdev2)"
        by (cases "serdev_device_write sdev1 [SLIP_ESC, e]")
      have "r1 = 0 \<and> r2 = 0 \<and> slip_send_data_loop sdev2 buf (int i) (i + 1) = (0, sdev')"
        using "1.prems"(1) True nl w1 w2
        by (subst (asm) slip_send_data_loop.simps)
          (auto simp: slip_literal_def e_def split: if_splits)
      then have r: "r1 = 0" "r2 = 0"
        and rest: "slip_send_data_loop sdev2 buf (int i) (i + 1) = (0, sdev')"
        by simp_all
      have seg: "segment buf (lst + 1) (int i - (lst + 1)) = take (i - s) (drop s buf)"
        using "1.prems"(2,3) by (simp add: segment_def nat_diff_distrib' of_nat_diff)
      have t1: "tx sdev1 = tx sdev @ take (i - s) (drop s buf)"
        using w1 r seg write_ok by simp
      have t2: "tx sdev2 = tx sdev1 @ [SLIP_ESC, e]"
        using w2 r write_ok by simp
      have t3: "tx sdev' = tx sdev2 @ slip_encode (drop (Suc i) buf)"
      proof (rule "1.IH"(2) [where s = "Suc i"])
        show "i < length buf" by (rule True)
        show "\<not> (buf ! i \<noteq> SLIP_END \<and> buf ! i \<noteq> SLIP_ESC)"
          using nl by (simp add: slip_literal_def)
        show "(r1, sdev1) = serdev_device_write sdev (segment buf (lst + 1) (int i - (lst + 1)))"
          using w1 by simp
        show "\<not> r1 \<noteq> 0" using r by simp
        show "(r2, sdev2) = serdev_device_write sdev1
                [SLIP_ESC, if buf ! i = SLIP_END then SLIP_ESC_END else SLIP_ESC_ESC]"
          using w2 by (simp add: e_def)
        show "\<not> r2 \<noteq> 0" using r by simp
        show "slip_send_data_loop sdev2 buf (int i) (i + 1) = (0, sdev')" by (rule rest)
        show "int i + 1 = int (Suc i)" by simp
        show "Suc i \<le> i + 1" by simp
        show "i + 1 \<le> length buf" using True by simp
        show "\<forall>k. Suc i \<le> k \<longrightarrow> k < i + 1 \<longrightarrow> slip_literal (buf ! k)" by simp
      qed
      have "slip_encode (drop s buf) =
            slip_encode (take (i - s) (drop s buf)) @ slip_encode (buf ! i # drop (Suc i) buf)"
        using drop_split [OF "1.prems"(3) True] slip_encode_append by metis
      also have "slip_encode (take (i - s) (drop s buf)) = take (i - s) (drop s buf)"
        using run by (rule slip_literal_encode)
      also have "slip_encode (buf ! i # drop (Suc i) buf) =
                 SLIP_ESC # e # slip_encode (drop (Suc i) buf)"
        using nl by (auto simp: slip_literal_def e_def)
      finally show ?thesis using t1 t2 t3 by simp
    qed
  qed
qed

lemma slip_send_data_tx:
  "slip_send_data sdev buf = (0, sdev') \<Longrightarrow> tx sdev' = tx sdev @ slip_encode buf"
  using send_loop_tx [of sdev buf "- 1" 0 sdev' 0] by (simp add: slip_send_data_def)

lemma slip_send_end_tx: "slip_send_end sdev = (0, sdev') \<Longrightarrow> tx sdev' = tx sdev @ [SLIP_END]"
  by (simp add: slip_send_end_def write_ok)

subsection \<open>Round trip\<close>

lemma hci_send_tx:
  assumes "wimod_hci_send sdev dst msg pl = (0, sdev')"
  shows "tx sdev' = tx sdev @ SLIP_END # slip_encode (hci_frame dst msg pl) @ [SLIP_END]"
proof -
  obtain r1 s1 where e1: "slip_send_end sdev = (r1, s1)" by (cases "slip_send_end sdev")
  obtain r2 s2 where e2: "slip_send_data s1 [dst] = (r2, s2)" by (cases "slip_send_data s1 [dst]")
  obtain r3 s3 where e3: "slip_send_data s2 [msg] = (r3, s3)" by (cases "slip_send_data s2 [msg]")
  obtain r4 s4 where e4: "(if length pl > 0 then slip_send_data s3 pl else (0, s3)) = (r4, s4)"
    by (cases "if length pl > 0 then slip_send_data s3 pl else (0, s3)")
  obtain r5 s5 where e5: "slip_send_data s4 (le16_bytes (hci_fcs dst msg pl)) = (r5, s5)"
    by (cases "slip_send_data s4 (le16_bytes (hci_fcs dst msg pl))")
  obtain r6 s6 where e6: "slip_send_end s5 = (r6, s6)" by (cases "slip_send_end s5")
  have r: "r1 = 0 \<and> r2 = 0 \<and> r3 = 0 \<and> r4 = 0 \<and> r5 = 0 \<and> r6 = 0 \<and> s6 = sdev'"
    using assms e1 e2 e3 e4 e5 e6
    by (simp add: wimod_hci_send_def Let_def split: if_splits)
  have t1: "tx s1 = tx sdev @ [SLIP_END]" using e1 r by (simp add: slip_send_end_tx)
  have t2: "tx s2 = tx s1 @ slip_encode [dst]" using e2 r by (simp add: slip_send_data_tx)
  have t3: "tx s3 = tx s2 @ slip_encode [msg]" using e3 r by (simp add: slip_send_data_tx)
  have t4: "tx s4 = tx s3 @ slip_encode pl"
    using e4 r by (cases "pl = []") (auto simp: slip_send_data_tx)
  have t5: "tx s5 = tx s4 @ slip_encode (le16_bytes (hci_fcs dst msg pl))"
    using e5 r by (simp add: slip_send_data_tx)
  have t6: "tx sdev' = tx s5 @ [SLIP_END]" using e6 r by (simp add: slip_send_end_tx)
  have "slip_encode (hci_frame dst msg pl) =
        slip_encode [dst] @ slip_encode [msg] @ slip_encode pl @
        slip_encode (le16_bytes (hci_fcs dst msg pl))"
    unfolding hci_frame_def slip_encode_append [symmetric] by simp
  then show ?thesis using t1 t2 t3 t4 t5 t6 by simp
qed

lemma receive_frame:
  assumes inv: "rx_inv wm" and empty: "rx_len wm = 0" and esc: "\<not> rx_esc wm"
    and F: "F \<noteq> []" "length F < 610"
  shows "wimod_receive_buf wm (SLIP_END # slip_encode F @ [SLIP_END]) =
         Inr (int (length (SLIP_END # slip_encode F @ [SLIP_END])),
              [(F, fst (wimod_process_packet (rx_filled wm F) F))],
              (snd (wimod_process_packet (rx_filled wm F) F))\<lparr>rx_len := 0\<rparr>)"
proof -
  let ?wm1 = "rx_filled wm F"
  have c0: "rx_content wm = []" using empty by (simp add: rx_content_def)
  have g: "0 < min (length (SLIP_END # slip_encode F @ [SLIP_END]))
             (size_t (int WIMOD_HCI_PACKET_MAX - rx_len wm))"
    using rx_cap [OF inv] empty by simp
  have nl: "\<not> slip_literal ((SLIP_END # slip_encode F @ [SLIP_END]) ! 0)" by simp
  have inv1: "rx_inv ?wm1" using inv F by (simp add: rx_inv_filled rx_inv_def packet_max)
  have g1: "0 < min (length [SLIP_END]) (size_t (int WIMOD_HCI_PACKET_MAX - rx_len ?wm1))"
    using rx_cap [OF inv1] F by simp
  have nl1: "\<not> slip_literal ([SLIP_END] ! 0)" by simp
  have esc1: "\<not> rx_esc ?wm1" using esc by simp
  have tk: "take (nat (rx_len ?wm1)) (rx_buf ?wm1) = F" by simp
  have pos: "0 < rx_len ?wm1" using F by (cases F) simp_all
  obtain out wm2 where pp: "wimod_process_packet ?wm1 F = (out, wm2)"
    by (cases "wimod_process_packet ?wm1 F")
  have "wimod_receive_buf wm (SLIP_END # slip_encode F @ [SLIP_END]) =
        wimod_receive_loop wm ([] @ slip_encode F @ SLIP_END # []) (length ([]::u8 list)) 1 []"
    unfolding wimod_receive_buf_def loop_delim [OF g esc nl] using empty by simp
  also have "\<dots> = wimod_receive_loop ?wm1 [SLIP_END] 0 (1 + int (length (slip_encode F))) []"
    using loop_decode [where wm = wm and lits = "[]" and d = SLIP_END and f = F and rest = "[]"
        and len = 1 and tr = "[]"] inv esc empty F c0
    by simp
  also have "\<dots> = wimod_receive_loop (wm2\<lparr>rx_len := 0\<rparr>) [] 0
                      (1 + int (length (slip_encode F)) + 1) [(F, out)]"
    unfolding loop_delim [OF g1 esc1 nl1] using pos pp by (simp add: tk)
  also have "\<dots> = Inr (1 + int (length (slip_encode F)) + 1, [(F, out)], wm2\<lparr>rx_len := 0\<rparr>)"
    by (rule loop_exit) simp
  finally show ?thesis using pp by simp
qed

lemma hci_frame_length: "length (hci_frame dst msg pl) = length pl + 4"
  by (simp add: hci_frame_def le16_bytes_def)

text \<open>
  Claim C1 (round trip). For every frame with a payload of at most 300 bytes: when
  \<open>wimod_hci_send\<close> succeeds, what it has written is \<open>SLIP_END\<close>, the escaped frame
  (address bytes, payload, checksum) and \<open>SLIP_END\<close>; and \<open>wimod_receive_buf\<close>, given
  these bytes in a state with nothing accumulated and no escape pending, consumes all of
  them and hands \<open>wimod_process_packet\<close> exactly one packet, the frame itself, whatever
  bytes the frame contains.
\<close>

theorem C1_round_trip:
  assumes "length pl \<le> WIMOD_HCI_PAYLOAD_MAX"
    and "wimod_hci_send sdev dst msg pl = (0, sdev')"
    and "rx_inv wmdev" "rx_len wmdev = 0" "\<not> rx_esc wmdev"
  shows "tx sdev' = tx sdev @ SLIP_END # slip_encode (hci_frame dst msg pl) @ [SLIP_END] \<and>
         wimod_receive_buf wmdev (SLIP_END # slip_encode (hci_frame dst msg pl) @ [SLIP_END]) =
         Inr (int (length (SLIP_END # slip_encode (hci_frame dst msg pl) @ [SLIP_END])),
              [(hci_frame dst msg pl,
                fst (wimod_process_packet (rx_filled wmdev (hci_frame dst msg pl))
                       (hci_frame dst msg pl)))],
              (snd (wimod_process_packet (rx_filled wmdev (hci_frame dst msg pl))
                       (hci_frame dst msg pl)))\<lparr>rx_len := 0\<rparr>)"
proof
  show "tx sdev' = tx sdev @ SLIP_END # slip_encode (hci_frame dst msg pl) @ [SLIP_END]"
    using assms(2) by (rule hci_send_tx)
  have "hci_frame dst msg pl \<noteq> []" by (simp add: hci_frame_def)
  moreover have "length (hci_frame dst msg pl) < 610"
    using assms(1) by (simp add: hci_frame_length WIMOD_HCI_PAYLOAD_MAX_def)
  ultimately show "wimod_receive_buf wmdev (SLIP_END # slip_encode (hci_frame dst msg pl) @ [SLIP_END]) =
         Inr (int (length (SLIP_END # slip_encode (hci_frame dst msg pl) @ [SLIP_END])),
              [(hci_frame dst msg pl,
                fst (wimod_process_packet (rx_filled wmdev (hci_frame dst msg pl))
                       (hci_frame dst msg pl)))],
              (snd (wimod_process_packet (rx_filled wmdev (hci_frame dst msg pl))
                       (hci_frame dst msg pl)))\<lparr>rx_len := 0\<rparr>)"
    using assms(3,4,5) by (intro receive_frame)
qed

lemma crc_ccitt_byte_esc1: "crc_ccitt_byte 0xffff 0xC0 = 51595"
  by (simp add: crc_ccitt_byte_def crc_ccitt_table_def crc_step_def)

lemma crc_ccitt_byte_esc2: "crc_ccitt_byte 51595 0xDB = 21068"
  by (simp add: crc_ccitt_byte_def crc_ccitt_table_def crc_step_def)

lemma crc_ccitt_byte_esc3: "crc_ccitt_byte 21068 0xDC = 38107"
  by (simp add: crc_ccitt_byte_def crc_ccitt_table_def crc_step_def)

lemma hci_fcs_esc: "hci_fcs 0xC0 0xDB [0xDC] = 0x6B24"
  by (simp add: hci_fcs_def crc_ccitt_byte_esc1 crc_ccitt_byte_esc2 crc_ccitt_byte_esc3
      crc_ccitt_def)

lemma hci_frame_esc: "hci_frame 0xC0 0xDB [0xDC] = [0xC0, 0xDB, 0xDC, 0x24, 0x6B]"
  by (simp add: hci_frame_def hci_fcs_esc le16_bytes_def)

lemma hci_send_esc:
  "wimod_hci_send \<lparr>tx = [], wr_results = []\<rparr> 0xC0 0xDB [0xDC] =
   (0, \<lparr>tx = [0xC0, 0xDB, 0xDC, 0xDB, 0xDD, 0xDC, 0x24, 0x6B, 0xC0], wr_results = []\<rparr>)"
  by (simp add: wimod_hci_send_def hci_fcs_esc slip_send_end_def slip_send_data_def
      slip_send_data_loop.simps serdev_device_write_def segment_def le16_bytes_def
      SLIP_END_def SLIP_ESC_def SLIP_ESC_END_def SLIP_ESC_ESC_def)

lemma slip_encode_esc:
  "slip_encode [0xC0, 0xDB, 0xDC, 0x24, 0x6B] = [0xDB, 0xDC, 0xDB, 0xDD, 0xDC, 0x24, 0x6B]"
  by (simp add: slip_encode_def slip_escape_def SLIP_END_def SLIP_ESC_def SLIP_ESC_END_def
      SLIP_ESC_ESC_def)

lemma rx_inv_init: "rx_inv (wimod_device_init sdev km)"
  by (simp add: rx_inv_def wimod_device_init_def)

lemma process_packet_unmatched:
  "4 \<le> length data \<Longrightarrow> NOT (crc_ccitt 0xffff data) = 0x0f47 \<Longrightarrow>
   packet_dispatchers wm = [] \<Longrightarrow> wimod_process_packet wm data = (Dispatched None, wm)"
  by (simp add: wimod_process_packet_def)

theorem C1_round_trip_witness:
  "length [0xDC :: u8] \<le> WIMOD_HCI_PAYLOAD_MAX \<and>
   wimod_hci_send \<lparr>tx = [], wr_results = []\<rparr> 0xC0 0xDB [0xDC] =
     (0, \<lparr>tx = [0xC0, 0xDB, 0xDC, 0xDB, 0xDD, 0xDC, 0x24, 0x6B, 0xC0], wr_results = []\<rparr>) \<and>
   rx_inv (wimod_device_init \<lparr>tx = [], wr_results = []\<rparr> []) \<and>
   rx_len (wimod_device_init \<lparr>tx = [], wr_results = []\<rparr> []) = 0 \<and>
   \<not> rx_esc (wimod_device_init \<lparr>tx = [], wr_results = []\<rparr> []) \<and>
   wimod_receive_buf (wimod_device_init \<lparr>tx = [], wr_results = []\<rparr> [])
       [0xC0, 0xDB, 0xDC, 0xDB, 0xDD, 0xDC, 0x24, 0x6B, 0xC0] =
     Inr (9, [([0xC0, 0xDB, 0xDC, 0x24, 0x6B], Dispatched None)],
          (rx_filled (wimod_device_init \<lparr>tx = [], wr_results = []\<rparr> [])
             [0xC0, 0xDB, 0xDC, 0x24, 0x6B])\<lparr>rx_len := 0\<rparr>)"
proof -
  let ?wm = "wimod_device_init \<lparr>tx = [], wr_results = []\<rparr> []"
  have pp: "wimod_process_packet (rx_filled ?wm [0xC0, 0xDB, 0xDC, 0x24, 0x6B])
              [0xC0, 0xDB, 0xDC, 0x24, 0x6B] =
            (Dispatched None, rx_filled ?wm [0xC0, 0xDB, 0xDC, 0x24, 0x6B])"
    using hci_frame_residual [of "0xC0" "0xDB" "[0xDC]"]
    by (intro process_packet_unmatched) (simp_all add: hci_frame_esc wimod_device_init_def)
  have h: "length [0xDC :: u8] \<le> WIMOD_HCI_PAYLOAD_MAX" "rx_len ?wm = 0" "\<not> rx_esc ?wm"
    by (simp_all add: WIMOD_HCI_PAYLOAD_MAX_def wimod_device_init_def)
  show ?thesis
    using C1_round_trip [OF h(1) hci_send_esc rx_inv_init h(2,3)] h hci_send_esc rx_inv_init
    by (simp add: hci_frame_esc slip_encode_esc pp SLIP_END_def)
qed

subsection \<open>The loop as repeated steps\<close>

lemma loop_unroll:
  "wimod_receive_loop wm data i len tr =
   (if i < min (length data) (size_t (int WIMOD_HCI_PACKET_MAX - rx_len wm)) then
      (case wimod_receive_step wm data i of
         Inl f \<Rightarrow> Inl f
       | Inr (wm', data', i', n, trs) \<Rightarrow> wimod_receive_loop wm' data' i' (len + n) (tr @ trs))
    else Inr (len, tr, wm))"
proof (cases "i < min (length data) (size_t (int WIMOD_HCI_PACKET_MAX - rx_len wm))")
  case False
  then show ?thesis using loop_exit [OF False] by (simp only: if_False)
next
  case g: True
  show ?thesis
  proof (cases "rx_esc wm")
    case True
    let ?X = "if data ! i = SLIP_ESC_END then rx_store (wm\<lparr>rx_esc := False\<rparr>) [SLIP_END]
          else if data ! i = SLIP_ESC_ESC then rx_store (wm\<lparr>rx_esc := False\<rparr>) [SLIP_ESC]
          else Inr (wm\<lparr>rx_esc := False\<rparr>)"
    have s: "wimod_receive_step wm data i =
             (case ?X of Inl f \<Rightarrow> Inl f | Inr wm1 \<Rightarrow> Inr (wm1, drop (i + 1) data, 0, int i + 1, []))"
      using True by (simp add: wimod_receive_step_def)
    show ?thesis
      unfolding loop_escaped [OF g True] s using g
      by (cases ?X) (simp_all add: add.assoc)
  next
    case esc: False
    show ?thesis
    proof (cases "slip_literal (data ! i)")
      case True
      then have "wimod_receive_step wm data i = Inr (wm, data, i + 1, 0, [])"
        using esc by (simp add: wimod_receive_step_def slip_literal_def)
      then show ?thesis using g loop_literal [OF g esc True] by simp
    next
      case False
      let ?X = "if i > 0 then rx_store wm (take i data) else Inr wm"
      have s: "wimod_receive_step wm data i =
          (case ?X of
             Inl f \<Rightarrow> Inl f
           | Inr wm1 \<Rightarrow>
               if data ! i = SLIP_END \<and> rx_len wm1 > 0 then
                 (case wimod_process_packet wm1 (take (nat (rx_len wm1)) (rx_buf wm1)) of
                    (out, wm2) \<Rightarrow>
                      Inr (wm2\<lparr>rx_len := 0\<rparr>, drop (i + 1) data, 0, int i + 1,
                           [(take (nat (rx_len wm1)) (rx_buf wm1), out)]))
               else if data ! i = SLIP_ESC then
                 Inr (wm1\<lparr>rx_esc := True\<rparr>, drop (i + 1) data, 0, int i + 1, [])
               else Inr (wm1, drop (i + 1) data, 0, int i + 1, []))"
        using esc False by (auto simp: wimod_receive_step_def slip_literal_def)
      show ?thesis
        unfolding loop_delim [OF g esc False] s using g
        by (cases ?X) (simp_all add: add.assoc split: prod.splits)
    qed
  qed
qed

lemma step_shape:
  assumes "wimod_receive_step wm data i = Inr (wm', data', i', n, trs)"
  shows "(wm' = wm \<and> data' = data \<and> i' = i + 1 \<and> n = 0 \<and> trs = [] \<and>
          \<not> rx_esc wm \<and> slip_literal (data ! i)) \<or>
         (data' = drop (i + 1) data \<and> i' = 0 \<and> n = int i + 1)"
  using assms
  by (auto simp: wimod_receive_step_def slip_literal_def split: if_splits sum.splits prod.splits)

lemma step_escaped:
  "rx_esc wm \<Longrightarrow>
   wimod_receive_step wm data i =
   (case (if data ! i = SLIP_ESC_END then rx_store (wm\<lparr>rx_esc := False\<rparr>) [SLIP_END]
          else if data ! i = SLIP_ESC_ESC then rx_store (wm\<lparr>rx_esc := False\<rparr>) [SLIP_ESC]
          else Inr (wm\<lparr>rx_esc := False\<rparr>)) of
      Inl f \<Rightarrow> Inl f
    | Inr wm1 \<Rightarrow> Inr (wm1, drop (i + 1) data, 0, int i + 1, []))"
  by (simp add: wimod_receive_step_def)

lemma step_literal:
  "\<not> rx_esc wm \<Longrightarrow> slip_literal (data ! i) \<Longrightarrow>
   wimod_receive_step wm data i = Inr (wm, data, i + 1, 0, [])"
  by (simp add: wimod_receive_step_def slip_literal_def)

lemma step_delim:
  "\<not> rx_esc wm \<Longrightarrow> \<not> slip_literal (data ! i) \<Longrightarrow>
   wimod_receive_step wm data i =
   (case (if i > 0 then rx_store wm (take i data) else Inr wm) of
      Inl f \<Rightarrow> Inl f
    | Inr wm1 \<Rightarrow>
        if data ! i = SLIP_END \<and> rx_len wm1 > 0 then
          (case wimod_process_packet wm1 (take (nat (rx_len wm1)) (rx_buf wm1)) of
             (out, wm2) \<Rightarrow>
               Inr (wm2\<lparr>rx_len := 0\<rparr>, drop (i + 1) data, 0, int i + 1,
                    [(take (nat (rx_len wm1)) (rx_buf wm1), out)]))
        else if data ! i = SLIP_ESC then
          Inr (wm1\<lparr>rx_esc := True\<rparr>, drop (i + 1) data, 0, int i + 1, [])
        else Inr (wm1, drop (i + 1) data, 0, int i + 1, []))"
  by (auto simp: wimod_receive_step_def slip_literal_def)

lemma step_append:
  assumes "i < length a"
  shows "wimod_receive_step wm (a @ b) i =
         (case wimod_receive_step wm a i of
            Inl f \<Rightarrow> Inl f
          | Inr (wm', a', i', n, trs) \<Rightarrow> Inr (wm', a' @ b, i', n, trs))"
proof -
  have nth: "(a @ b) ! i = a ! i" using assms by (simp add: nth_append)
  have tk: "take i (a @ b) = take i a" using assms by simp
  have dr: "drop (i + 1) (a @ b) = drop (i + 1) a @ b" using assms by simp
  show ?thesis
  proof (cases "rx_esc wm")
    case True
    let ?X = "if a ! i = SLIP_ESC_END then rx_store (wm\<lparr>rx_esc := False\<rparr>) [SLIP_END]
          else if a ! i = SLIP_ESC_ESC then rx_store (wm\<lparr>rx_esc := False\<rparr>) [SLIP_ESC]
          else Inr (wm\<lparr>rx_esc := False\<rparr>)"
    show ?thesis
      unfolding step_escaped [OF True] nth dr by (cases ?X) simp_all
  next
    case esc: False
    show ?thesis
    proof (cases "slip_literal (a ! i)")
      case True
      then show ?thesis using esc by (simp add: step_literal nth)
    next
      case False
      then have nl: "\<not> slip_literal ((a @ b) ! i)" by (simp add: nth)
      let ?Y = "if i > 0 then rx_store wm (take i a) else Inr wm"
      show ?thesis
        unfolding step_delim [OF esc False] step_delim [OF esc nl] nth tk dr
        by (cases ?Y) (simp_all split: prod.splits)
    qed
  qed
qed

lemma process_packet_rx:
  "rx_buf (snd (wimod_process_packet wm data)) = rx_buf wm"
  "rx_len (snd (wimod_process_packet wm data)) = rx_len wm"
  "rx_esc (snd (wimod_process_packet wm data)) = rx_esc wm"
  by (simp_all add: wimod_process_packet_def split: prod.splits)

lemma rx_store_inv:
  assumes "rx_inv wm" "rx_len wm + int (length xs) \<le> 610"
  shows "\<exists>wm1. rx_store wm xs = Inr wm1 \<and> rx_inv wm1 \<and> rx_esc wm1 = rx_esc wm \<and>
           rx_len wm1 = rx_len wm + int (length xs)"
proof -
  have "length (rx_content wm @ xs) \<le> WIMOD_HCI_PACKET_MAX"
    using assms by (auto simp: rx_content_length packet_max rx_inv_def)
  then have "rx_inv (rx_filled wm (rx_content wm @ xs))"
    using assms by (simp add: rx_inv_filled rx_inv_def)
  then show ?thesis
    using assms rx_store_filled [OF assms] by (auto simp: rx_content_length rx_inv_def)
qed

lemma loop_step:
  assumes "i < min (length data) (size_t (int WIMOD_HCI_PACKET_MAX - rx_len wm))"
    and "wimod_receive_step wm data i = Inr (wm1, data1, i1, n1, trs)"
  shows "wimod_receive_loop wm data i len tr = wimod_receive_loop wm1 data1 i1 (len + n1) (tr @ trs)"
  using assms by (subst loop_unroll) simp

lemma loop_step_fault:
  assumes "i < min (length data) (size_t (int WIMOD_HCI_PACKET_MAX - rx_len wm))"
    and "wimod_receive_step wm data i = Inl f"
  shows "wimod_receive_loop wm data i len tr = Inl f"
  using assms by (subst loop_unroll) simp

lemma step_measure:
  assumes "wimod_receive_step wm data i = Inr (wm1, data1, i1, n1, trs)" "i < length data"
  shows "length data1 - i1 < length data - i"
  using step_shape [OF assms(1)] assms(2) by auto

lemma loop_bounds:
  "wimod_receive_loop wm data i len tr = Inr (n, tr', wm') \<Longrightarrow>
   len \<le> n \<and> n \<le> len + int (length data)"
proof (induction "length data - i" arbitrary: wm data i len tr rule: less_induct)
  case less
  show ?case
  proof (cases "i < min (length data) (size_t (int WIMOD_HCI_PACKET_MAX - rx_len wm))")
    case False
    then show ?thesis using less.prems loop_exit [OF False] by simp
  next
    case g: True
    show ?thesis
    proof (cases "wimod_receive_step wm data i")
      case (Inl f)
      then show ?thesis using less.prems loop_step_fault [OF g Inl] by simp
    next
      case (Inr r)
      obtain wm1 data1 i1 n1 trs where r: "r = (wm1, data1, i1, n1, trs)" by (cases r)
      note st = Inr [unfolded r]
      have "wimod_receive_loop wm1 data1 i1 (len + n1) (tr @ trs) = Inr (n, tr', wm')"
        using less.prems loop_step [OF g st] by simp
      then have "len + n1 \<le> n \<and> n \<le> len + n1 + int (length data1)"
        using less.hyps [OF step_measure [OF st]] g by simp
      then show ?thesis using step_shape [OF st] g by auto
    qed
  qed
qed

lemma loop_shift:
  "wimod_receive_loop wm data i len tr =
   (case wimod_receive_loop wm data i 0 [] of
      Inl f \<Rightarrow> Inl f
    | Inr (n, tr', wm') \<Rightarrow> Inr (len + n, tr @ tr', wm'))"
proof (induction "length data - i" arbitrary: wm data i len tr rule: less_induct)
  case less
  show ?case
  proof (cases "i < min (length data) (size_t (int WIMOD_HCI_PACKET_MAX - rx_len wm))")
    case False
    then show ?thesis by (simp add: loop_exit [OF False])
  next
    case g: True
    show ?thesis
    proof (cases "wimod_receive_step wm data i")
      case (Inl f)
      then show ?thesis by (simp add: loop_step_fault [OF g Inl])
    next
      case (Inr r)
      obtain wm1 data1 i1 n1 trs where r: "r = (wm1, data1, i1, n1, trs)" by (cases r)
      note st = Inr [unfolded r]
      have m: "length data1 - i1 < length data - i" using step_measure [OF st] g by simp
      show ?thesis
        unfolding loop_step [OF g st]
        by (subst less.hyps [OF m]) (subst (2) less.hyps [OF m],
            simp add: add.assoc split: sum.splits prod.splits)
    qed
  qed
qed

lemma step_inv:
  assumes inv: "rx_inv wm" and g: "i < min (length data) (size_t (int WIMOD_HCI_PACKET_MAX - rx_len wm))"
  shows "\<exists>wm1 data1 i1 n1 trs.
           wimod_receive_step wm data i = Inr (wm1, data1, i1, n1, trs) \<and> rx_inv wm1 \<and>
           (\<forall>x \<in> set trs. fst x \<noteq> [])"
proof -
  have cap: "int i < 610 - rx_len wm" using g rx_cap [OF inv] by auto
  show ?thesis
  proof (cases "rx_esc wm")
    case True
    have inv': "rx_inv (wm\<lparr>rx_esc := False\<rparr>)" using inv by simp
    have fit: "rx_len (wm\<lparr>rx_esc := False\<rparr>) + int (length [b]) \<le> 610" for b :: u8
      using cap by simp
    obtain w1 where s1: "rx_store (wm\<lparr>rx_esc := False\<rparr>) [SLIP_END] = Inr w1" "rx_inv w1"
      using rx_store_inv [OF inv' fit [of SLIP_END]] by auto
    obtain w2 where s2: "rx_store (wm\<lparr>rx_esc := False\<rparr>) [SLIP_ESC] = Inr w2" "rx_inv w2"
      using rx_store_inv [OF inv' fit [of SLIP_ESC]] by auto
    show ?thesis
      unfolding step_escaped [OF True] using s1 s2 inv' by simp
  next
    case esc: False
    show ?thesis
    proof (cases "slip_literal (data ! i)")
      case True
      then show ?thesis using esc inv by (simp add: step_literal)
    next
      case False
      have "\<exists>wm1. (if i > 0 then rx_store wm (take i data) else Inr wm) = Inr wm1 \<and> rx_inv wm1"
      proof (cases "i > 0")
        case True
        have "rx_len wm + int (length (take i data)) \<le> 610" using cap g by simp
        from rx_store_inv [OF inv this] show ?thesis using True by auto
      next
        case False
        then show ?thesis using inv by simp
      qed
      then obtain wm1 where st: "(if i > 0 then rx_store wm (take i data) else Inr wm) = Inr wm1"
        and inv1: "rx_inv wm1" by blast
      obtain out wm2 where pp:
        "wimod_process_packet wm1 (take (nat (rx_len wm1)) (rx_buf wm1)) = (out, wm2)"
        by (cases "wimod_process_packet wm1 (take (nat (rx_len wm1)) (rx_buf wm1))")
      have "rx_buf wm2 = rx_buf wm1"
        using process_packet_rx(1) [of wm1 "take (nat (rx_len wm1)) (rx_buf wm1)"] pp by simp
      then have inv2: "rx_inv (wm2\<lparr>rx_len := 0\<rparr>)" using inv1 by (simp add: rx_inv_def)
      have ne: "0 < rx_len wm1 \<Longrightarrow> take (nat (rx_len wm1)) (rx_buf wm1) \<noteq> []"
        using inv1 by (auto simp: rx_inv_def packet_max)
      show ?thesis
        unfolding step_delim [OF esc False] st using pp inv1 inv2 ne by simp
    qed
  qed
qed

lemma loop_inv:
  "rx_inv wm \<Longrightarrow> \<forall>x \<in> set tr. fst x \<noteq> [] \<Longrightarrow>
   \<exists>n tr' wm'. wimod_receive_loop wm data i len tr = Inr (n, tr', wm') \<and> rx_inv wm' \<and>
     (\<forall>x \<in> set tr'. fst x \<noteq> [])"
proof (induction "length data - i" arbitrary: wm data i len tr rule: less_induct)
  case less
  show ?case
  proof (cases "i < min (length data) (size_t (int WIMOD_HCI_PACKET_MAX - rx_len wm))")
    case False
    then show ?thesis using less.prems by (simp add: loop_exit [OF False])
  next
    case g: True
    obtain wm1 data1 i1 n1 trs where st: "wimod_receive_step wm data i = Inr (wm1, data1, i1, n1, trs)"
      and inv1: "rx_inv wm1" and ne: "\<forall>x \<in> set trs. fst x \<noteq> []"
      using step_inv [OF less.prems(1) g] by blast
    have m: "length data1 - i1 < length data - i" using step_measure [OF st] g by simp
    have "\<forall>x \<in> set (tr @ trs). fst x \<noteq> []" using less.prems(2) ne by auto
    from less.hyps [OF m inv1 this] show ?thesis
      unfolding loop_step [OF g st] .
  qed
qed

lemma loop_rescan:
  assumes "i \<le> length data"
    and "0 < i \<longrightarrow> \<not> rx_esc wm \<and> i \<le> size_t (int WIMOD_HCI_PACKET_MAX - rx_len wm) \<and>
                 (\<forall>k < i. slip_literal (data ! k))"
  shows "wimod_receive_loop wm data 0 len tr = wimod_receive_loop wm data i len tr"
  using assms
proof (induction i)
  case 0
  show ?case by simp
next
  case (Suc i)
  have g: "i < min (length data) (size_t (int WIMOD_HCI_PACKET_MAX - rx_len wm))"
    using Suc.prems by simp
  have "wimod_receive_loop wm data 0 len tr = wimod_receive_loop wm data i len tr"
    using Suc.prems by (intro Suc.IH) auto
  also have "\<dots> = wimod_receive_loop wm data (i + 1) len tr"
    using Suc.prems by (intro loop_literal [OF g]) auto
  finally show ?case by simp
qed

lemma loop_append:
  assumes "i \<le> length a"
    and "0 < i \<longrightarrow> \<not> rx_esc wm \<and> i \<le> size_t (int WIMOD_HCI_PACKET_MAX - rx_len wm) \<and>
                 (\<forall>k < i. slip_literal (a ! k))"
  shows "wimod_receive_loop wm (a @ b) i len tr =
         (case wimod_receive_loop wm a i len tr of
            Inl f \<Rightarrow> Inl f
          | Inr (n, tr', wm') \<Rightarrow> wimod_receive_loop wm' (drop (nat (n - len)) a @ b) 0 n tr')"
  using assms
proof (induction "length a - i" arbitrary: wm a i len tr rule: less_induct)
  case less
  show ?case
  proof (cases "i < min (length a) (size_t (int WIMOD_HCI_PACKET_MAX - rx_len wm))")
    case False
    have "wimod_receive_loop wm (a @ b) 0 len tr = wimod_receive_loop wm (a @ b) i len tr"
      using less.prems by (intro loop_rescan) (auto simp: nth_append)
    then show ?thesis by (simp add: loop_exit [OF False])
  next
    case g: True
    then have gab: "i < min (length (a @ b)) (size_t (int WIMOD_HCI_PACKET_MAX - rx_len wm))"
      by simp
    have ia: "i < length a" using g by simp
    show ?thesis
    proof (cases "wimod_receive_step wm a i")
      case (Inl f)
      then have "wimod_receive_step wm (a @ b) i = Inl f" by (simp add: step_append [OF ia])
      then show ?thesis
        by (simp add: loop_step_fault [OF gab] loop_step_fault [OF g Inl])
    next
      case (Inr r)
      obtain wm1 a1 i1 n1 trs where r: "r = (wm1, a1, i1, n1, trs)" by (cases r)
      note st = Inr [unfolded r]
      have stab: "wimod_receive_step wm (a @ b) i = Inr (wm1, a1 @ b, i1, n1, trs)"
        using st by (simp add: step_append [OF ia])
      have m: "length a1 - i1 < length a - i" using step_measure [OF st ia] .
      note sh = step_shape [OF st]
      have p1: "i1 \<le> length a1" using sh ia by auto
      have p2: "0 < i1 \<longrightarrow> \<not> rx_esc wm1 \<and> i1 \<le> size_t (int WIMOD_HCI_PACKET_MAX - rx_len wm1) \<and>
                 (\<forall>k < i1. slip_literal (a1 ! k))"
        using sh g less.prems by (auto simp: less_Suc_eq)
      have ih: "wimod_receive_loop wm1 (a1 @ b) i1 (len + n1) (tr @ trs) =
         (case wimod_receive_loop wm1 a1 i1 (len + n1) (tr @ trs) of
            Inl f \<Rightarrow> Inl f
          | Inr (n, tr', wm') \<Rightarrow>
              wimod_receive_loop wm' (drop (nat (n - (len + n1))) a1 @ b) 0 n tr')"
        using less.hyps [OF m p1 p2] .
      show ?thesis
      proof (cases "wimod_receive_loop wm1 a1 i1 (len + n1) (tr @ trs)")
        case (Inl f)
        then show ?thesis
          unfolding loop_step [OF gab stab] loop_step [OF g st] ih by simp
      next
        case (Inr q)
        obtain n tr' wm' where q: "q = (n, tr', wm')" by (cases q)
        note res = Inr [unfolded q]
        have b: "len + n1 \<le> n" using loop_bounds [OF res] by simp
        have "drop (nat (n - (len + n1))) a1 = drop (nat (n - len)) a"
        proof (cases "a1 = a \<and> n1 = 0")
          case True
          then show ?thesis by simp
        next
          case False
          then have c: "a1 = drop (i + 1) a" "n1 = int i + 1" using sh by auto
          have "nat (n - (len + n1)) + (i + 1) = nat (n - len)" using b c by simp
          then show ?thesis using c by (simp add: add.commute)
        qed
        then show ?thesis
          unfolding loop_step [OF gab stab] loop_step [OF g st] ih res by simp
      qed
    qed
  qed
qed

lemma receive_buf_append:
  "wimod_receive_buf wm (a @ b) =
   (case wimod_receive_buf wm a of
      Inl f \<Rightarrow> Inl f
    | Inr (n, tr, wm') \<Rightarrow>
        (case wimod_receive_buf wm' (drop (nat n) a @ b) of
           Inl f \<Rightarrow> Inl f
         | Inr (n', tr', wm'') \<Rightarrow> Inr (n + n', tr @ tr', wm'')))"
proof -
  have ap: "wimod_receive_loop wm (a @ b) 0 0 [] =
         (case wimod_receive_loop wm a 0 0 [] of
            Inl f \<Rightarrow> Inl f
          | Inr (n, tr', wm') \<Rightarrow> wimod_receive_loop wm' (drop (nat (n - 0)) a @ b) 0 n tr')"
    by (rule loop_append) simp_all
  show ?thesis
  proof (cases "wimod_receive_loop wm a 0 0 []")
    case (Inl f)
    then show ?thesis using ap by (simp add: wimod_receive_buf_def)
  next
    case (Inr q)
    obtain n tr wm' where q: "q = (n, tr, wm')" by (cases q)
    note res = Inr [unfolded q]
    have "wimod_receive_loop wm (a @ b) 0 0 [] =
          wimod_receive_loop wm' (drop (nat n) a @ b) 0 n tr"
      using ap unfolding res by simp
    then show ?thesis
      unfolding wimod_receive_buf_def res
      using loop_shift [of wm' "drop (nat n) a @ b" 0 n tr] by simp
  qed
qed

subsection \<open>Feeding a stream in chunks\<close>

lemma receive_buf_Nil: "wimod_receive_buf wm [] = Inr (0, [], wm)"
  unfolding wimod_receive_buf_def by (rule loop_exit) simp

lemma receive_buf_bounds:
  "wimod_receive_buf wm a = Inr (n, tr, wm') \<Longrightarrow> 0 \<le> n \<and> n \<le> int (length a)"
  unfolding wimod_receive_buf_def using loop_bounds [of wm a 0 0 "[]" n tr wm'] by simp

lemma receive_buf_leftover:
  assumes "wimod_receive_buf wm a = Inr (n, tr, wm')"
  shows "wimod_receive_buf wm' (drop (nat n) a) = Inr (0, [], wm')"
proof -
  from receive_buf_append [of wm a "[]"] assms
  have "(case wimod_receive_buf wm' (drop (nat n) a) of
           Inl f \<Rightarrow> Inl f
         | Inr (n', tr', wm'') \<Rightarrow> Inr (n + n', tr @ tr', wm'')) = Inr (n, tr, wm')"
    by simp
  then show ?thesis by (auto split: sum.splits)
qed

lemma drop_drop_append:
  assumes "k \<le> length xs"
  shows "drop m (drop k xs @ ys) = drop (k + m) (xs @ ys)"
proof -
  have "drop k xs @ ys = drop k (xs @ ys)" using assms by simp
  then show ?thesis by (simp only: drop_drop add.commute)
qed

lemma serdev_receive_concat:
  assumes "wimod_receive_buf wm pend = Inr (0, [], wm)"
  shows "serdev_receive wm pend chunks tr =
         (case wimod_receive_buf wm (pend @ concat chunks) of
            Inl f \<Rightarrow> Inl f
          | Inr (n, tr', wm') \<Rightarrow> Inr (drop (nat n) (pend @ concat chunks), tr @ tr', wm'))"
  using assms
proof (induction chunks arbitrary: wm pend tr)
  case Nil
  then show ?case by simp
next
  case (Cons c cs)
  have ap: "wimod_receive_buf wm (pend @ concat (c # cs)) =
     (case wimod_receive_buf wm (pend @ c) of
        Inl f \<Rightarrow> Inl f
      | Inr (n, tr, wm') \<Rightarrow>
          (case wimod_receive_buf wm' (drop (nat n) (pend @ c) @ concat cs) of
             Inl f \<Rightarrow> Inl f
           | Inr (n', tr', wm'') \<Rightarrow> Inr (n + n', tr @ tr', wm'')))"
    using receive_buf_append [of wm "pend @ c" "concat cs"] by simp
  show ?case
  proof (cases "wimod_receive_buf wm (pend @ c)")
    case (Inl f)
    then show ?thesis unfolding ap by simp
  next
    case (Inr q)
    obtain n1 tr1 wm1 where q: "q = (n1, tr1, wm1)" by (cases q)
    note res = Inr [unfolded q]
    note ih = Cons.IH [OF receive_buf_leftover [OF res], of "tr @ tr1"]
    have b: "0 \<le> n1" "n1 \<le> int (length (pend @ c))" using receive_buf_bounds [OF res] by simp_all
    show ?thesis
    proof (cases "wimod_receive_buf wm1 (drop (nat n1) (pend @ c) @ concat cs)")
      case (Inl f)
      then show ?thesis unfolding ap using res ih by simp
    next
      case (Inr q2)
      obtain n2 tr2 wm2 where q2: "q2 = (n2, tr2, wm2)" by (cases q2)
      note res2 = Inr [unfolded q2]
      have "0 \<le> n2" using receive_buf_bounds [OF res2] by simp
      then have "nat (n1 + n2) = nat n1 + nat n2" using b by simp
      moreover have "nat n1 \<le> length (pend @ c)" using b by simp
      ultimately have "drop (nat n2) (drop (nat n1) (pend @ c) @ concat cs) =
            drop (nat (n1 + n2)) ((pend @ c) @ concat cs)"
        by (simp only: drop_drop_append)
      then have "drop (nat n2) (drop (nat n1) (pend @ c) @ concat cs) =
            drop (nat (n1 + n2)) (pend @ concat (c # cs))"
        by simp
      then show ?thesis unfolding ap using res res2 ih by simp
    qed
  qed
qed

text \<open>
  Claim C3 (chunk-boundary independence), as amended. \<open>wimod_receive_buf\<close> consumes a
  chunk up to its last delimiter or escape byte and returns that count; the literal bytes
  after it are neither stored nor consumed. When the transport presents the bytes a call
  did not consume again, in front of the next chunk (\<open>serdev_receive\<close>), then for every
  byte stream and every way of cutting it into chunks, empty chunks included, the
  packets processed and the final device are those of one call on the whole stream, and
  what is left unconsumed is the same. For the encoding of a frame with a payload of at
  most 300 bytes, fed in any chunking to a device with nothing accumulated, exactly one
  packet is processed, the frame, and nothing is left over.
\<close>

theorem C3_chunks_represented:
  "serdev_receive wmdev [] chunks [] =
     (case wimod_receive_buf wmdev (concat chunks) of
        Inl f \<Rightarrow> Inl f
      | Inr (n, tr, wm') \<Rightarrow> Inr (drop (nat n) (concat chunks), tr, wm')) \<and>
   (length pl \<le> WIMOD_HCI_PAYLOAD_MAX \<and> rx_inv wmdev \<and> rx_len wmdev = 0 \<and> \<not> rx_esc wmdev \<and>
    concat chunks = SLIP_END # slip_encode (hci_frame dst msg pl) @ [SLIP_END] \<longrightarrow>
    serdev_receive wmdev [] chunks [] =
      Inr ([],
           [(hci_frame dst msg pl,
             fst (wimod_process_packet (rx_filled wmdev (hci_frame dst msg pl))
                    (hci_frame dst msg pl)))],
           (snd (wimod_process_packet (rx_filled wmdev (hci_frame dst msg pl))
                    (hci_frame dst msg pl)))\<lparr>rx_len := 0\<rparr>))"
proof (intro conjI impI)
  show g: "serdev_receive wmdev [] chunks [] =
     (case wimod_receive_buf wmdev (concat chunks) of
        Inl f \<Rightarrow> Inl f
      | Inr (n, tr, wm') \<Rightarrow> Inr (drop (nat n) (concat chunks), tr, wm'))"
    using serdev_receive_concat [OF receive_buf_Nil, of wmdev chunks "[]"]
    by (simp split: sum.splits prod.splits)
  assume a: "length pl \<le> WIMOD_HCI_PAYLOAD_MAX \<and> rx_inv wmdev \<and> rx_len wmdev = 0 \<and>
    \<not> rx_esc wmdev \<and> concat chunks = SLIP_END # slip_encode (hci_frame dst msg pl) @ [SLIP_END]"
  have "hci_frame dst msg pl \<noteq> []" by (simp add: hci_frame_def)
  moreover have "length (hci_frame dst msg pl) < 610"
    using a by (simp add: hci_frame_length WIMOD_HCI_PAYLOAD_MAX_def)
  ultimately have "wimod_receive_buf wmdev (concat chunks) =
         Inr (int (length (concat chunks)),
              [(hci_frame dst msg pl,
                fst (wimod_process_packet (rx_filled wmdev (hci_frame dst msg pl))
                       (hci_frame dst msg pl)))],
              (snd (wimod_process_packet (rx_filled wmdev (hci_frame dst msg pl))
                       (hci_frame dst msg pl)))\<lparr>rx_len := 0\<rparr>)"
    using a receive_frame [of wmdev "hci_frame dst msg pl"] by simp
  then show "serdev_receive wmdev [] chunks [] =
      Inr ([],
           [(hci_frame dst msg pl,
             fst (wimod_process_packet (rx_filled wmdev (hci_frame dst msg pl))
                    (hci_frame dst msg pl)))],
           (snd (wimod_process_packet (rx_filled wmdev (hci_frame dst msg pl))
                    (hci_frame dst msg pl)))\<lparr>rx_len := 0\<rparr>)"
    unfolding g by simp
qed

theorem C3_chunks_represented_witness:
  "length [0xDC :: u8] \<le> WIMOD_HCI_PAYLOAD_MAX \<and>
   rx_inv (wimod_device_init \<lparr>tx = [], wr_results = []\<rparr> []) \<and>
   rx_len (wimod_device_init \<lparr>tx = [], wr_results = []\<rparr> []) = 0 \<and>
   \<not> rx_esc (wimod_device_init \<lparr>tx = [], wr_results = []\<rparr> []) \<and>
   concat [[0xC0, 0xDB], [0xDC, 0xDB], [0xDD, 0xDC, 0x24], [0x6B, 0xC0]] =
     SLIP_END # slip_encode (hci_frame 0xC0 0xDB [0xDC]) @ [SLIP_END] \<and>
   serdev_receive (wimod_device_init \<lparr>tx = [], wr_results = []\<rparr> []) []
       [[0xC0, 0xDB], [0xDC, 0xDB], [0xDD, 0xDC, 0x24], [0x6B, 0xC0]] [] =
     Inr ([], [([0xC0, 0xDB, 0xDC, 0x24, 0x6B], Dispatched None)],
          (rx_filled (wimod_device_init \<lparr>tx = [], wr_results = []\<rparr> [])
             [0xC0, 0xDB, 0xDC, 0x24, 0x6B])\<lparr>rx_len := 0\<rparr>)"
proof -
  let ?wm = "wimod_device_init \<lparr>tx = [], wr_results = []\<rparr> []"
  have pp: "wimod_process_packet (rx_filled ?wm [0xC0, 0xDB, 0xDC, 0x24, 0x6B])
              [0xC0, 0xDB, 0xDC, 0x24, 0x6B] =
            (Dispatched None, rx_filled ?wm [0xC0, 0xDB, 0xDC, 0x24, 0x6B])"
    using hci_frame_residual [of "0xC0" "0xDB" "[0xDC]"]
    by (intro process_packet_unmatched) (simp_all add: hci_frame_esc wimod_device_init_def)
  have h: "length [0xDC :: u8] \<le> WIMOD_HCI_PAYLOAD_MAX" "rx_len ?wm = 0" "\<not> rx_esc ?wm"
    by (simp_all add: WIMOD_HCI_PAYLOAD_MAX_def wimod_device_init_def)
  have c: "concat [[0xC0, 0xDB], [0xDC, 0xDB], [0xDD, 0xDC, 0x24], [0x6B, 0xC0]] =
     SLIP_END # slip_encode (hci_frame 0xC0 0xDB [0xDC]) @ [SLIP_END]"
    by (simp add: hci_frame_esc slip_encode_esc SLIP_END_def)
  have "serdev_receive ?wm [] [[0xC0, 0xDB], [0xDC, 0xDB], [0xDD, 0xDC, 0x24], [0x6B, 0xC0]] [] =
      Inr ([],
           [(hci_frame 0xC0 0xDB [0xDC],
             fst (wimod_process_packet (rx_filled ?wm (hci_frame 0xC0 0xDB [0xDC]))
                    (hci_frame 0xC0 0xDB [0xDC])))],
           (snd (wimod_process_packet (rx_filled ?wm (hci_frame 0xC0 0xDB [0xDC]))
                    (hci_frame 0xC0 0xDB [0xDC])))\<lparr>rx_len := 0\<rparr>)"
    using C3_chunks_represented [of ?wm "[[0xC0, 0xDB], [0xDC, 0xDB], [0xDD, 0xDC, 0x24], [0x6B, 0xC0]]"
        "[0xDC]" "0xC0" "0xDB"] h c rx_inv_init [of "\<lparr>tx = [], wr_results = []\<rparr>" "[]"]
    by blast
  then have m: "serdev_receive ?wm [] [[0xC0, 0xDB], [0xDC, 0xDB], [0xDD, 0xDC, 0x24], [0x6B, 0xC0]] [] =
     Inr ([], [([0xC0, 0xDB, 0xDC, 0x24, 0x6B], Dispatched None)],
          (rx_filled ?wm [0xC0, 0xDB, 0xDC, 0x24, 0x6B])\<lparr>rx_len := 0\<rparr>)"
    by (simp add: hci_frame_esc pp)
  show ?thesis
    by (intro conjI h c rx_inv_init m)
qed

theorem C3_each_chunk_once_counterexample:
  "(case receive_each_once (wimod_device_init \<lparr>tx = [], wr_results = []\<rparr> [])
           [[0xC0, 0x01], [0x01, 0x16, 0x07, 0xC0]] [] of
      Inl f \<Rightarrow> []
    | Inr (tr, wm) \<Rightarrow> tr) = [([0x01, 0x16, 0x07], Discarded_length)] \<and>
   (case wimod_receive_buf (wimod_device_init \<lparr>tx = [], wr_results = []\<rparr> [])
           [0xC0, 0x01, 0x01, 0x16, 0x07, 0xC0] of
      Inl f \<Rightarrow> []
    | Inr (n, tr, wm) \<Rightarrow> tr) = [([0x01, 0x01, 0x16, 0x07], Dispatched None)]"
proof -
  have r: "NOT (crc_ccitt 0xffff [0x01, 0x01, 0x16, 0x07]) = 0x0f47"
    using hci_frame_residual [of 1 1 "[]"] by (simp add: hci_frame_ping)
  show ?thesis
    by (simp add: wimod_receive_buf_def wimod_receive_loop.simps wimod_device_init_def
      packet_max size_t_def rx_store_def wimod_process_packet_def r
      SLIP_END_def SLIP_ESC_def SLIP_ESC_END_def SLIP_ESC_ESC_def)
qed

subsection \<open>Invalid packets\<close>

lemma receive_idle_end:
  assumes "rx_inv wm" "rx_len wm = 0" "\<not> rx_esc wm"
  shows "wimod_receive_loop wm (replicate k SLIP_END) 0 len tr = Inr (len + int k, tr, wm)"
proof (induction k arbitrary: len)
  case 0
  show ?case using loop_exit [of 0 "[]" wm len tr] by simp
next
  case (Suc k)
  have g: "0 < min (length (replicate (Suc k) SLIP_END))
             (size_t (int WIMOD_HCI_PACKET_MAX - rx_len wm))"
    using rx_cap [OF assms(1)] assms(2) by simp
  have st: "wimod_receive_step wm (replicate (Suc k) SLIP_END) 0 =
            Inr (wm, replicate k SLIP_END, 0, 1, [])"
    using assms by (simp add: step_delim)
  show ?case
    unfolding loop_step [OF g st] using Suc.IH [of "len + 1"] by simp
qed

lemma process_packet_short:
  "length data < 4 \<Longrightarrow> wimod_process_packet wm data = (Discarded_length, wm)"
  by (simp add: wimod_process_packet_def)

lemma process_packet_bad_crc:
  "4 \<le> length data \<Longrightarrow> NOT (crc_ccitt 0xffff data) \<noteq> 0x0f47 \<Longrightarrow>
   wimod_process_packet wm data = (Discarded_checksum, wm)"
  by (simp add: wimod_process_packet_def)

text \<open>
  Claim C7 (invalid frames are discarded silently). (1) Any number of \<open>SLIP_END\<close> bytes
  arriving with nothing accumulated process no packet and leave the device as it was.
  (2) No call ever hands \<open>wimod_process_packet\<close> an empty packet. (3) A packet shorter
  than four bytes and (4) a packet whose residual is not \<open>0x0F47\<close> leave
  \<open>wimod_process_packet\<close> with the device unchanged: no handler runs, the registry and
  the allocator are as before. (5) Received between two \<open>SLIP_END\<close>, such a packet is
  consumed whole, no fault arises, and afterwards \<open>rx_len\<close> is 0 and everything but the
  bytes of the array is as before.
\<close>

theorem C7_invalid_discarded:
  "(rx_inv wmdev \<and> rx_len wmdev = 0 \<and> \<not> rx_esc wmdev \<longrightarrow>
      wimod_receive_buf wmdev (replicate k SLIP_END) = Inr (int k, [], wmdev)) \<and>
   (rx_inv wmdev \<and> wimod_receive_buf wmdev data = Inr (n, tr, wm') \<longrightarrow>
      (\<forall>x \<in> set tr. fst x \<noteq> [])) \<and>
   (length pkt < 4 \<longrightarrow> wimod_process_packet wmdev pkt = (Discarded_length, wmdev)) \<and>
   (4 \<le> length pkt \<and> NOT (crc_ccitt 0xffff pkt) \<noteq> 0x0f47 \<longrightarrow>
      wimod_process_packet wmdev pkt = (Discarded_checksum, wmdev)) \<and>
   (rx_inv wmdev \<and> rx_len wmdev = 0 \<and> \<not> rx_esc wmdev \<and> pkt \<noteq> [] \<and> length pkt < 610 \<and>
    (length pkt < 4 \<or> NOT (crc_ccitt 0xffff pkt) \<noteq> 0x0f47) \<longrightarrow>
      wimod_receive_buf wmdev (SLIP_END # slip_encode pkt @ [SLIP_END]) =
        Inr (int (length (SLIP_END # slip_encode pkt @ [SLIP_END])),
             [(pkt, if length pkt < 4 then Discarded_length else Discarded_checksum)],
             (rx_filled wmdev pkt)\<lparr>rx_len := 0\<rparr>))"
proof (intro conjI impI)
  assume "rx_inv wmdev \<and> rx_len wmdev = 0 \<and> \<not> rx_esc wmdev"
  then show "wimod_receive_buf wmdev (replicate k SLIP_END) = Inr (int k, [], wmdev)"
    using receive_idle_end [of wmdev k 0 "[]"] by (simp add: wimod_receive_buf_def)
next
  assume a: "rx_inv wmdev \<and> wimod_receive_buf wmdev data = Inr (n, tr, wm')"
  then have "\<exists>n' tr' wm''. wimod_receive_loop wmdev data 0 0 [] = Inr (n', tr', wm'') \<and>
      rx_inv wm'' \<and> (\<forall>x \<in> set tr'. fst x \<noteq> [])"
    by (intro loop_inv) simp_all
  then show "\<forall>x \<in> set tr. fst x \<noteq> []" using a by (auto simp: wimod_receive_buf_def)
next
  assume "length pkt < 4"
  then show "wimod_process_packet wmdev pkt = (Discarded_length, wmdev)"
    by (rule process_packet_short)
next
  assume "4 \<le> length pkt \<and> NOT (crc_ccitt 0xffff pkt) \<noteq> 0x0f47"
  then show "wimod_process_packet wmdev pkt = (Discarded_checksum, wmdev)"
    by (simp add: process_packet_bad_crc)
next
  assume a: "rx_inv wmdev \<and> rx_len wmdev = 0 \<and> \<not> rx_esc wmdev \<and> pkt \<noteq> [] \<and> length pkt < 610 \<and>
    (length pkt < 4 \<or> NOT (crc_ccitt 0xffff pkt) \<noteq> 0x0f47)"
  then have "wimod_process_packet (rx_filled wmdev pkt) pkt =
             (if length pkt < 4 then Discarded_length else Discarded_checksum, rx_filled wmdev pkt)"
    by (auto simp: process_packet_short process_packet_bad_crc)
  then show "wimod_receive_buf wmdev (SLIP_END # slip_encode pkt @ [SLIP_END]) =
        Inr (int (length (SLIP_END # slip_encode pkt @ [SLIP_END])),
             [(pkt, if length pkt < 4 then Discarded_length else Discarded_checksum)],
             (rx_filled wmdev pkt)\<lparr>rx_len := 0\<rparr>)"
    using a receive_frame [of wmdev pkt] by simp
qed

lemma crc_flip_ping: "NOT (crc_ccitt 0xffff [0, 0x01, 0x16, 0x07]) \<noteq> 0x0f47"
  using hci_frame_flip [of 0 1 1 "[]" 0] by (simp add: hci_frame_ping)

theorem C7_invalid_discarded_witness:
  "wimod_receive_buf (wimod_device_init \<lparr>tx = [], wr_results = []\<rparr> []) [0xC0, 0xC0] =
     Inr (2, [], wimod_device_init \<lparr>tx = [], wr_results = []\<rparr> []) \<and>
   wimod_process_packet (wimod_device_init \<lparr>tx = [], wr_results = []\<rparr> []) [1, 2, 3] =
     (Discarded_length, wimod_device_init \<lparr>tx = [], wr_results = []\<rparr> []) \<and>
   wimod_process_packet (wimod_device_init \<lparr>tx = [], wr_results = []\<rparr> []) [0, 0x01, 0x16, 0x07] =
     (Discarded_checksum, wimod_device_init \<lparr>tx = [], wr_results = []\<rparr> []) \<and>
   wimod_receive_buf (wimod_device_init \<lparr>tx = [], wr_results = []\<rparr> []) [0xC0, 1, 2, 3, 0xC0] =
     Inr (5, [([1, 2, 3], Discarded_length)],
          (rx_filled (wimod_device_init \<lparr>tx = [], wr_results = []\<rparr> []) [1, 2, 3])\<lparr>rx_len := 0\<rparr>) \<and>
   wimod_receive_buf (wimod_device_init \<lparr>tx = [], wr_results = []\<rparr> [])
       [0xC0, 0, 0x01, 0x16, 0x07, 0xC0] =
     Inr (6, [([0, 0x01, 0x16, 0x07], Discarded_checksum)],
          (rx_filled (wimod_device_init \<lparr>tx = [], wr_results = []\<rparr> [])
             [0, 0x01, 0x16, 0x07])\<lparr>rx_len := 0\<rparr>)"
proof -
  let ?wm = "wimod_device_init \<lparr>tx = [], wr_results = []\<rparr> []"
  have h: "rx_inv ?wm" "rx_len ?wm = 0" "\<not> rx_esc ?wm"
    by (simp_all add: rx_inv_init) (simp_all add: wimod_device_init_def)
  have e1: "slip_encode [1, 2, 3] = [1, 2, 3]"
    by (simp add: slip_encode_def slip_escape_def SLIP_END_def SLIP_ESC_def)
  have e2: "slip_encode [0, 0x01, 0x16, 0x07] = [0, 0x01, 0x16, 0x07]"
    by (simp add: slip_encode_def slip_escape_def SLIP_END_def SLIP_ESC_def)
  have r: "replicate 2 (0xC0 :: u8) = [0xC0, 0xC0]"
    by (simp add: numeral_2_eq_2)
  have s1: "[1, 2, 3 :: u8] \<noteq> [] \<and> length [1, 2, 3 :: u8] < 610 \<and> length [1, 2, 3 :: u8] < 4"
    by simp
  have s2: "[0, 0x01, 0x16, 0x07 :: u8] \<noteq> [] \<and> length [0, 0x01, 0x16, 0x07 :: u8] < 610 \<and>
            4 \<le> length [0, 0x01, 0x16, 0x07 :: u8]"
    by simp
  note t1 = C7_invalid_discarded [of ?wm 2 "[0xC0, 1, 2, 3, 0xC0]" 5
      "[([1, 2, 3], Discarded_length)]" "(rx_filled ?wm [1, 2, 3])\<lparr>rx_len := 0\<rparr>" "[1, 2, 3]"]
  note t2 = C7_invalid_discarded [of ?wm 2 "[0xC0, 1, 2, 3, 0xC0]" 5
      "[([1, 2, 3], Discarded_length)]" "(rx_filled ?wm [1, 2, 3])\<lparr>rx_len := 0\<rparr>"
      "[0, 0x01, 0x16, 0x07]"]
  have a: "wimod_receive_buf ?wm (replicate 2 SLIP_END) = Inr (int 2, [], ?wm)"
    using t1 h by blast
  have b: "wimod_process_packet ?wm [1, 2, 3] = (Discarded_length, ?wm)"
    using t1 s1 by blast
  have c: "wimod_process_packet ?wm [0, 0x01, 0x16, 0x07] = (Discarded_checksum, ?wm)"
    using t2 s2 crc_flip_ping by blast
  have d: "wimod_receive_buf ?wm (SLIP_END # slip_encode [1, 2, 3] @ [SLIP_END]) =
        Inr (int (length (SLIP_END # slip_encode [1, 2, 3] @ [SLIP_END])),
             [([1, 2, 3], if length [1, 2, 3 :: u8] < 4 then Discarded_length else Discarded_checksum)],
             (rx_filled ?wm [1, 2, 3])\<lparr>rx_len := 0\<rparr>)"
    using t1 h s1 by blast
  have e: "wimod_receive_buf ?wm (SLIP_END # slip_encode [0, 0x01, 0x16, 0x07] @ [SLIP_END]) =
        Inr (int (length (SLIP_END # slip_encode [0, 0x01, 0x16, 0x07] @ [SLIP_END])),
             [([0, 0x01, 0x16, 0x07],
               if length [0, 0x01, 0x16, 0x07 :: u8] < 4 then Discarded_length else Discarded_checksum)],
             (rx_filled ?wm [0, 0x01, 0x16, 0x07])\<lparr>rx_len := 0\<rparr>)"
    using t2 h s2 crc_flip_ping by blast
  show ?thesis
    using a b c d e by (simp add: e1 e2 r SLIP_END_def)
qed

subsection \<open>The bounds of the receive buffer\<close>

lemma receive_each_once_inv:
  "rx_inv wm \<Longrightarrow> \<exists>tr' wm'. receive_each_once wm chunks tr = Inr (tr', wm') \<and> rx_inv wm'"
proof (induction chunks arbitrary: wm tr)
  case Nil
  then show ?case by simp
next
  case (Cons c cs)
  obtain n tr1 wm1 where r: "wimod_receive_loop wm c 0 0 [] = Inr (n, tr1, wm1)" and i: "rx_inv wm1"
    using loop_inv [OF Cons.prems, of "[]" c 0 0] by auto
  show ?case using Cons.IH [OF i, of "tr @ tr1"] r by (simp add: wimod_receive_buf_def)
qed

text \<open>
  Claim C10 (receive buffer bounds), as amended: the capacity \<open>WIMOD_HCI_PACKET_MAX\<close> is
  610, not 608. From any device whose \<open>rx_len\<close> is within \<open>0..610\<close> and whose array
  has 610 bytes (the device as probed is one), every sequence of calls of
  \<open>wimod_receive_buf\<close>, on any chunks, ends without the fault \<open>Rx_buf_overflow\<close>: each
  write into the array, the copy of a literal run and the store of a decoded escape, lay
  inside it. Afterwards \<open>rx_len\<close> is again within \<open>0..610\<close>.
\<close>

theorem C10_rx_bounds:
  assumes "rx_inv wmdev"
  shows "WIMOD_HCI_PACKET_MAX = 610 \<and>
         (\<exists>tr wm'. receive_each_once wmdev chunks [] = Inr (tr, wm') \<and>
            0 \<le> rx_len wm' \<and> rx_len wm' \<le> int WIMOD_HCI_PACKET_MAX \<and>
            length (rx_buf wm') = WIMOD_HCI_PACKET_MAX)"
  using receive_each_once_inv [OF assms, of chunks "[]"] by (auto simp: rx_inv_def packet_max)

theorem C10_rx_bounds_witness:
  "rx_inv (wimod_device_init \<lparr>tx = [], wr_results = []\<rparr> []) \<and>
   WIMOD_HCI_PACKET_MAX = 610 \<and>
   (\<exists>tr wm'. receive_each_once (wimod_device_init \<lparr>tx = [], wr_results = []\<rparr> [])
                [[0xC0, 0xDB], [0xDC, 0x01], [0xC0]] [] = Inr (tr, wm') \<and>
      0 \<le> rx_len wm' \<and> rx_len wm' \<le> int WIMOD_HCI_PACKET_MAX \<and>
      length (rx_buf wm') = WIMOD_HCI_PACKET_MAX)"
  using C10_rx_bounds [OF rx_inv_init, of "\<lparr>tx = [], wr_results = []\<rparr>" "[]"
          "[[0xC0, 0xDB], [0xDC, 0x01], [0xC0]]"] rx_inv_init
  by simp

lemma receive_escapes:
  assumes "rx_inv wm" "rx_len wm = 0" "\<not> rx_esc wm" "k < 610"
  shows "wimod_receive_buf wm (slip_encode (replicate k SLIP_ESC) @ [SLIP_ESC]) =
         Inr (int (length (slip_encode (replicate k SLIP_ESC))) + 1, [],
              (rx_filled wm (replicate k SLIP_ESC))\<lparr>rx_esc := True\<rparr>)"
proof -
  let ?f = "replicate k SLIP_ESC"
  let ?wm1 = "rx_filled wm ?f"
  have c0: "rx_content wm = []" using assms by (simp add: rx_content_def)
  have inv1: "rx_inv ?wm1" using assms by (simp add: rx_inv_filled rx_inv_def packet_max)
  have g1: "0 < min (length [SLIP_ESC]) (size_t (int WIMOD_HCI_PACKET_MAX - rx_len ?wm1))"
    using rx_cap [OF inv1] assms by simp
  have st: "wimod_receive_step ?wm1 [SLIP_ESC] 0 = Inr (?wm1\<lparr>rx_esc := True\<rparr>, [], 0, 1, [])"
    using assms by (simp add: step_delim)
  have "wimod_receive_buf wm (slip_encode ?f @ [SLIP_ESC]) =
        wimod_receive_loop wm ([] @ slip_encode ?f @ SLIP_ESC # []) (length ([]::u8 list)) 0 []"
    by (simp add: wimod_receive_buf_def)
  also have "\<dots> = wimod_receive_loop ?wm1 [SLIP_ESC] 0 (int (length (slip_encode ?f))) []"
    using loop_decode [where wm = wm and lits = "[]" and d = SLIP_ESC and f = ?f and rest = "[]"
        and len = 0 and tr = "[]"] assms c0
    by simp
  also have "\<dots> = wimod_receive_loop (?wm1\<lparr>rx_esc := True\<rparr>) [] 0
                      (int (length (slip_encode ?f)) + 1) []"
    unfolding loop_step [OF g1 st] by simp
  also have "\<dots> = Inr (int (length (slip_encode ?f)) + 1, [], ?wm1\<lparr>rx_esc := True\<rparr>)"
    by (rule loop_exit) simp
  finally show ?thesis .
qed

theorem C10_capacity_608_counterexample:
  "(case wimod_receive_buf (wimod_device_init \<lparr>tx = [], wr_results = []\<rparr> [])
           (slip_encode (replicate 609 SLIP_ESC) @ [SLIP_ESC]) of
      Inl f \<Rightarrow> 0
    | Inr (n, tr, wm) \<Rightarrow> rx_len wm) = 609"
proof -
  let ?wm = "wimod_device_init \<lparr>tx = [], wr_results = []\<rparr> []"
  have a: "rx_len ?wm = 0" "\<not> rx_esc ?wm" by (simp_all add: wimod_device_init_def)
  have k: "(609 :: nat) < 610" by simp
  show ?thesis
    unfolding receive_escapes [OF rx_inv_init a k] by simp
qed

subsection \<open>Dispatch\<close>


lemma dispatch_scan_first:
  "\<forall>x \<in> set es1. \<not> dispatcher_matches (snd x) data \<Longrightarrow> dispatcher_matches e data \<Longrightarrow>
   dispatch_scan (es1 @ (a, e) # es2) data km =
   (Some a,
    es1 @ (a, e\<lparr>container := fst (dispatchee e (take (length data - 2) data) (container e) km)\<rparr>)
        # es2,
    snd (dispatchee e (take (length data - 2) data) (container e) km))"
  by (induction es1) (auto split: prod.splits)

lemma process_packet_valid:
  "4 \<le> length data \<Longrightarrow> NOT (crc_ccitt 0xffff data) = 0x0f47 \<Longrightarrow>
   wimod_process_packet wm data =
   (case dispatch_scan (packet_dispatchers wm) data (kmem wm) of
      (r, es, km) \<Rightarrow> (Dispatched r, wm\<lparr>packet_dispatchers := es, kmem := km\<rparr>))"
  by (simp add: wimod_process_packet_def)


lemma crc_ccitt_byte_rsp2: "crc_ccitt_byte 0x1E0E 2 = 51826"
  by (simp add: crc_ccitt_byte_def crc_ccitt_table_def crc_step_def)

lemma crc_ccitt_byte_rsp3: "crc_ccitt_byte 51826 0 = 20575"
  by (simp add: crc_ccitt_byte_def crc_ccitt_table_def crc_step_def)

lemma hci_frame_ping_rsp: "hci_frame 1 2 [0] = [1, 2, 0, 0xA0, 0xAF]"
  by (simp add: hci_frame_def hci_fcs_def le16_bytes_def crc_ccitt_def crc_ccitt_byte_ping1
      crc_ccitt_byte_rsp2 crc_ccitt_byte_rsp3)

lemma crc_ping_rsp: "NOT (crc_ccitt 0xffff [1, 2, 0, 0xA0, 0xAF]) = 0x0f47"
  using hci_frame_residual [of 1 2 "[0]"] by (simp add: hci_frame_ping_rsp)



lemma dispatch_completion_fresh:
  assumes "\<not> completion_done c" "km = [] \<or> hd km" "2 \<le> length d"
  shows "wimod_hci_packet_dispatch_completion d c km =
         (c\<lparr>comp_done := 1, payload := Some (drop 2 d), payload_len := int (length d) - 2\<rparr>, tl km)"
  using assms
  by (cases km)
    (auto simp: wimod_hci_packet_dispatch_completion_def completion_done_def kzalloc_def
      complete_def Let_def)

text \<open>
  Claim C8 (payload stripping), as amended: when the allocation of the payload slot
  succeeds. A packet of \<open>L \<ge> 4\<close> bytes with the right residual, whose first match is a
  waiter with the completion handler that has not completed, completes the waiter with
  \<open>payload_len = L - 4\<close> and the payload slot holding bytes \<open>2 .. L - 3\<close> of the
  packet.
\<close>

theorem C8_payload_stripped:
  assumes "4 \<le> length data" "NOT (crc_ccitt 0xffff data) = 0x0f47"
    and "packet_dispatchers wmdev = es1 @ (a, e) # es2"
    and "\<forall>x \<in> set es1. \<not> dispatcher_matches (snd x) data" "dispatcher_matches e data"
    and "dispatchee e = wimod_hci_packet_dispatch_completion" "\<not> completion_done (container e)"
    and "kmem wmdev = [] \<or> hd (kmem wmdev)"
  shows "wimod_process_packet wmdev data =
         (Dispatched (Some a),
          wmdev\<lparr>packet_dispatchers :=
                   es1 @ (a, e\<lparr>container :=
                                (container e)\<lparr>comp_done := 1,
                                  payload := Some (take (length data - 4) (drop 2 data)),
                                  payload_len := int (length data) - 4\<rparr>\<rparr>) # es2,
                 kmem := tl (kmem wmdev)\<rparr>)"
proof -
  have l: "2 \<le> length (take (length data - 2) data)" using assms(1) by simp
  have d: "drop 2 (take (length data - 2) data) = take (length data - 4) (drop 2 data)"
    by (simp add: drop_take)
  have n: "int (length (take (length data - 2) data)) - 2 = int (length data) - 4"
    using assms(1) by simp
  have h: "wimod_hci_packet_dispatch_completion (take (length data - 2) data) (container e)
             (kmem wmdev) =
           ((container e)\<lparr>comp_done := 1,
              payload := Some (take (length data - 4) (drop 2 data)),
              payload_len := int (length data) - 4\<rparr>, tl (kmem wmdev))"
    unfolding dispatch_completion_fresh [OF assms(7,8) l] d n ..
  show ?thesis
    using assms(1-6)
    by (simp add: process_packet_valid dispatch_scan_first h)
qed

theorem C8_payload_stripped_witness:
  "4 \<le> length [1, 2, 0, 0xA0, 0xAF :: u8] \<and>
   NOT (crc_ccitt 0xffff [1, 2, 0, 0xA0, 0xAF]) = 0x0f47 \<and>
   dispatcher_matches (hci_waiter 1 2) [1, 2, 0, 0xA0, 0xAF] \<and>
   dispatchee (hci_waiter 1 2) = wimod_hci_packet_dispatch_completion \<and>
   \<not> completion_done (container (hci_waiter 1 2)) \<and>
   wimod_process_packet
     ((wimod_device_init \<lparr>tx = [], wr_results = []\<rparr> [True])
        \<lparr>packet_dispatchers := [(7, hci_waiter 1 4), (10, hci_waiter 1 2)]\<rparr>)
     [1, 2, 0, 0xA0, 0xAF] =
     (Dispatched (Some 10),
      (wimod_device_init \<lparr>tx = [], wr_results = []\<rparr> [])
        \<lparr>packet_dispatchers :=
           [(7, hci_waiter 1 4),
            (10, (hci_waiter 1 2)\<lparr>container :=
                   \<lparr>comp_done = 1, payload = Some [0], payload_len = 1\<rparr>\<rparr>)]\<rparr>)"
proof -
  let ?wm = "(wimod_device_init \<lparr>tx = [], wr_results = []\<rparr> [True])
        \<lparr>packet_dispatchers := [(7, hci_waiter 1 4), (10, hci_waiter 1 2)]\<rparr>"
  have l: "4 \<le> length [1, 2, 0, 0xA0, 0xAF :: u8]" by simp
  have p: "packet_dispatchers ?wm = [(7, hci_waiter 1 4)] @ (10, hci_waiter 1 2) # []" by simp
  have n: "\<forall>x \<in> set [(7 :: nat, hci_waiter 1 4)]. \<not> dispatcher_matches (snd x) [1, 2, 0, 0xA0, 0xAF]"
    by (simp add: dispatcher_matches_def hci_waiter_def)
  have m: "dispatcher_matches (hci_waiter 1 2) [1, 2, 0, 0xA0, 0xAF]"
    by (simp add: dispatcher_matches_def hci_waiter_def)
  have f: "dispatchee (hci_waiter 1 2) = wimod_hci_packet_dispatch_completion"
    by (simp add: hci_waiter_def)
  have c: "\<not> completion_done (container (hci_waiter 1 2))"
    by (simp add: hci_waiter_def completion_done_def init_completion_def)
  have k: "kmem ?wm = [] \<or> hd (kmem ?wm)" by (simp add: wimod_device_init_def)
  show ?thesis
    using C8_payload_stripped [OF l crc_ping_rsp p n m f c k] l crc_ping_rsp m f c
    by (simp add: hci_waiter_def wimod_device_init_def init_completion_def)
qed

theorem C8_allocation_fails_counterexample:
  "wimod_process_packet
     ((wimod_device_init \<lparr>tx = [], wr_results = []\<rparr> [False])
        \<lparr>packet_dispatchers := [(10, hci_waiter 1 2)]\<rparr>)
     [1, 2, 0, 0xA0, 0xAF] =
     (Dispatched (Some 10),
      (wimod_device_init \<lparr>tx = [], wr_results = []\<rparr> [])
        \<lparr>packet_dispatchers :=
           [(10, (hci_waiter 1 2)\<lparr>container :=
                   \<lparr>comp_done = 1, payload = None, payload_len = 1\<rparr>\<rparr>)]\<rparr>)"
  by (simp add: wimod_process_packet_def crc_ping_rsp dispatcher_matches_def hci_waiter_def
      wimod_device_init_def wimod_hci_packet_dispatch_completion_def init_completion_def
      completion_done_def kzalloc_def complete_def)

subsection \<open>A second frame for the same waiter\<close>

lemma dispatcher_matches_container:
  "dispatcher_matches (e\<lparr>container := c\<rparr>) data = dispatcher_matches e data"
  by (simp add: dispatcher_matches_def)

lemma process_packet_duplicate:
  assumes "4 \<le> length data" "NOT (crc_ccitt 0xffff data) = 0x0f47"
    and "packet_dispatchers wm = es1 @ (a, e) # es2"
    and "\<forall>x \<in> set es1. \<not> dispatcher_matches (snd x) data" "dispatcher_matches e data"
    and "dispatchee e = wimod_hci_packet_dispatch_completion"
  shows "wimod_process_packet (snd (wimod_process_packet wm data)) data =
         (Dispatched (Some a), snd (wimod_process_packet wm data))"
proof -
  let ?d = "take (length data - 2) data"
  let ?c = "fst (wimod_hci_packet_dispatch_completion ?d (container e) (kmem wm))"
  let ?k = "snd (wimod_hci_packet_dispatch_completion ?d (container e) (kmem wm))"
  let ?e = "e\<lparr>container := ?c\<rparr>"
  let ?wm1 = "wm\<lparr>packet_dispatchers := es1 @ (a, ?e) # es2, kmem := ?k\<rparr>"
  have one: "wimod_process_packet wm data = (Dispatched (Some a), ?wm1)"
    using assms by (simp add: process_packet_valid dispatch_scan_first)
  have dn: "completion_done ?c" by (rule dispatch_completion_idem)
  have noop: "wimod_hci_packet_dispatch_completion ?d ?c ?k = (?c, ?k)"
    using dn by (rule dispatch_completion_done)
  have m: "dispatcher_matches ?e data"
    using assms(5) by (simp add: dispatcher_matches_container)
  have f: "dispatchee ?e = wimod_hci_packet_dispatch_completion" using assms(6) by simp
  have "wimod_process_packet ?wm1 data = (Dispatched (Some a), ?wm1)"
    using assms(1,2,4) m
    by (simp add: process_packet_valid dispatch_scan_first [where e = ?e] f noop)
  then show ?thesis by (simp add: one)
qed

text \<open>
  The wait takes the completion back: after it the handler's guard no longer holds, for
  every completion that was fired once.
\<close>

lemma wait_reopens:
  "comp_done c = 1 \<Longrightarrow>
   \<not> completion_done (snd (wait_for_completion_timeout c timeout)) \<and>
   fst (wait_for_completion_timeout c timeout) \<noteq> 0"
  by (simp add: wait_for_completion_timeout_def completion_done_def)

text \<open>
  So a frame dispatched to a waiter that fired once and whose completion the caller has
  taken is handled as a first one: the payload slot and the payload length are written
  again and the completion fires again.
\<close>

lemma dispatch_completion_after_wait:
  assumes "comp_done c = 1" "km = [] \<or> hd km" "2 \<le> length d"
  shows "wimod_hci_packet_dispatch_completion d (snd (wait_for_completion_timeout c timeout)) km =
         (c\<lparr>comp_done := 1, payload := Some (drop 2 d), payload_len := int (length d) - 2\<rparr>,
          tl km)"
proof -
  have w: "snd (wait_for_completion_timeout c timeout) = c\<lparr>comp_done := 0\<rparr>"
    using assms(1) by (simp add: wait_for_completion_timeout_def)
  have n: "\<not> completion_done (c\<lparr>comp_done := 0\<rparr>)" by (simp add: completion_done_def)
  show ?thesis
    unfolding w dispatch_completion_fresh [OF n assms(2,3)] by simp
qed

lemma crc_ccitt_byte_rsp3_err: "crc_ccitt_byte 51826 1 = 16854"
  by (simp add: crc_ccitt_byte_def crc_ccitt_table_def crc_step_def)

lemma hci_frame_ping_rsp_err: "hci_frame 1 2 [1] = [1, 2, 1, 0x29, 0xBE]"
  by (simp add: hci_frame_def hci_fcs_def le16_bytes_def crc_ccitt_def crc_ccitt_byte_ping1
      crc_ccitt_byte_rsp2 crc_ccitt_byte_rsp3_err)

lemma crc_ping_rsp_err: "NOT (crc_ccitt 0xffff [1, 2, 1, 0x29, 0xBE]) = 0x0f47"
  using hci_frame_residual [of 1 2 "[1]"] by (simp add: hci_frame_ping_rsp_err)

text \<open>
  Claim C4 (at-most-once completion) does not hold of the code. The guard of the handler
  is \<open>completion_done\<close>, which holds from \<open>complete\<close> until the waiting caller takes the
  completion back: \<open>wait_for_completion_timeout\<close> (line 238) returns with the counter at
  0 again, and the dispatcher is unlinked only after that (line 239). A matching frame
  processed in between finds the guard false: it allocates and writes the payload slot
  and the payload length again and fires the completion a second time.

  Below, in this order: the ping response \<open>01 02 00 A0 AF\<close> completes the waiter at
  address 10; the wait takes the completion; then the response \<open>01 02 01 29 BE\<close>
  (status 1) replaces the payload \<open>[0]\<close> by \<open>[1]\<close>; the byte-identical duplicate
  \<open>01 02 00 A0 AF\<close> in its place allocates and fires again; and lines 245 to 253 make
  0 of what the first response left and \<open>-EINVAL\<close> of what the second wrote. Before
  the wait, a second frame changes nothing (lemmas \<open>dispatch_completion_done\<close>,
  \<open>dispatch_fold_first\<close> and \<open>process_packet_duplicate\<close>).
\<close>

theorem C4_second_frame_after_wait:
  "wimod_process_packet
     ((wimod_device_init \<lparr>tx = [], wr_results = []\<rparr> [True, True])
        \<lparr>packet_dispatchers := [(10, hci_waiter 1 2)]\<rparr>)
     [1, 2, 0, 0xA0, 0xAF] =
     (Dispatched (Some 10),
      (wimod_device_init \<lparr>tx = [], wr_results = []\<rparr> [True])
        \<lparr>packet_dispatchers :=
           [(10, (hci_waiter 1 2)\<lparr>container :=
                   \<lparr>comp_done = 1, payload = Some [0], payload_len = 1\<rparr>\<rparr>)]\<rparr>) \<and>
   waiter_after_wait
     ((wimod_device_init \<lparr>tx = [], wr_results = []\<rparr> [True])
        \<lparr>packet_dispatchers :=
           [(10, (hci_waiter 1 2)\<lparr>container :=
                   \<lparr>comp_done = 1, payload = Some [0], payload_len = 1\<rparr>\<rparr>)]\<rparr>) 10 100 =
     (wimod_device_init \<lparr>tx = [], wr_results = []\<rparr> [True])
        \<lparr>packet_dispatchers :=
           [(10, (hci_waiter 1 2)\<lparr>container :=
                   \<lparr>comp_done = 0, payload = Some [0], payload_len = 1\<rparr>\<rparr>)]\<rparr> \<and>
   wimod_process_packet
     ((wimod_device_init \<lparr>tx = [], wr_results = []\<rparr> [True])
        \<lparr>packet_dispatchers :=
           [(10, (hci_waiter 1 2)\<lparr>container :=
                   \<lparr>comp_done = 0, payload = Some [0], payload_len = 1\<rparr>\<rparr>)]\<rparr>)
     [1, 2, 1, 0x29, 0xBE] =
     (Dispatched (Some 10),
      (wimod_device_init \<lparr>tx = [], wr_results = []\<rparr> [])
        \<lparr>packet_dispatchers :=
           [(10, (hci_waiter 1 2)\<lparr>container :=
                   \<lparr>comp_done = 1, payload = Some [1], payload_len = 1\<rparr>\<rparr>)]\<rparr>) \<and>
   wimod_process_packet
     ((wimod_device_init \<lparr>tx = [], wr_results = []\<rparr> [True])
        \<lparr>packet_dispatchers :=
           [(10, (hci_waiter 1 2)\<lparr>container :=
                   \<lparr>comp_done = 0, payload = Some [0], payload_len = 1\<rparr>\<rparr>)]\<rparr>)
     [1, 2, 0, 0xA0, 0xAF] =
     (Dispatched (Some 10),
      (wimod_device_init \<lparr>tx = [], wr_results = []\<rparr> [])
        \<lparr>packet_dispatchers :=
           [(10, (hci_waiter 1 2)\<lparr>container :=
                   \<lparr>comp_done = 1, payload = Some [0], payload_len = 1\<rparr>\<rparr>)]\<rparr>) \<and>
   ping_response \<lparr>comp_done = 0, payload = Some [0], payload_len = 1\<rparr> = Inr 0 \<and>
   ping_response \<lparr>comp_done = 1, payload = Some [1], payload_len = 1\<rparr> = Inr (- 22)"
proof -
  have a: "wimod_process_packet
     ((wimod_device_init \<lparr>tx = [], wr_results = []\<rparr> [True, True])
        \<lparr>packet_dispatchers := [(10, hci_waiter 1 2)]\<rparr>)
     [1, 2, 0, 0xA0, 0xAF] =
     (Dispatched (Some 10),
      (wimod_device_init \<lparr>tx = [], wr_results = []\<rparr> [True])
        \<lparr>packet_dispatchers :=
           [(10, (hci_waiter 1 2)\<lparr>container :=
                   \<lparr>comp_done = 1, payload = Some [0], payload_len = 1\<rparr>\<rparr>)]\<rparr>)"
    by (simp add: wimod_process_packet_def crc_ping_rsp dispatcher_matches_def hci_waiter_def
      wimod_device_init_def wimod_hci_packet_dispatch_completion_def init_completion_def
      completion_done_def kzalloc_def complete_def)
  have b: "waiter_after_wait
     ((wimod_device_init \<lparr>tx = [], wr_results = []\<rparr> [True])
        \<lparr>packet_dispatchers :=
           [(10, (hci_waiter 1 2)\<lparr>container :=
                   \<lparr>comp_done = 1, payload = Some [0], payload_len = 1\<rparr>\<rparr>)]\<rparr>) 10 100 =
     (wimod_device_init \<lparr>tx = [], wr_results = []\<rparr> [True])
        \<lparr>packet_dispatchers :=
           [(10, (hci_waiter 1 2)\<lparr>container :=
                   \<lparr>comp_done = 0, payload = Some [0], payload_len = 1\<rparr>\<rparr>)]\<rparr>"
    by (simp add: waiter_after_wait_def wait_for_completion_timeout_def wimod_device_init_def)
  have c: "wimod_process_packet
     ((wimod_device_init \<lparr>tx = [], wr_results = []\<rparr> [True])
        \<lparr>packet_dispatchers :=
           [(10, (hci_waiter 1 2)\<lparr>container :=
                   \<lparr>comp_done = 0, payload = Some [0], payload_len = 1\<rparr>\<rparr>)]\<rparr>)
     [1, 2, 1, 0x29, 0xBE] =
     (Dispatched (Some 10),
      (wimod_device_init \<lparr>tx = [], wr_results = []\<rparr> [])
        \<lparr>packet_dispatchers :=
           [(10, (hci_waiter 1 2)\<lparr>container :=
                   \<lparr>comp_done = 1, payload = Some [1], payload_len = 1\<rparr>\<rparr>)]\<rparr>)"
    by (simp add: wimod_process_packet_def crc_ping_rsp_err dispatcher_matches_def hci_waiter_def
      wimod_device_init_def wimod_hci_packet_dispatch_completion_def init_completion_def
      completion_done_def kzalloc_def complete_def)
  have d: "wimod_process_packet
     ((wimod_device_init \<lparr>tx = [], wr_results = []\<rparr> [True])
        \<lparr>packet_dispatchers :=
           [(10, (hci_waiter 1 2)\<lparr>container :=
                   \<lparr>comp_done = 0, payload = Some [0], payload_len = 1\<rparr>\<rparr>)]\<rparr>)
     [1, 2, 0, 0xA0, 0xAF] =
     (Dispatched (Some 10),
      (wimod_device_init \<lparr>tx = [], wr_results = []\<rparr> [])
        \<lparr>packet_dispatchers :=
           [(10, (hci_waiter 1 2)\<lparr>container :=
                   \<lparr>comp_done = 1, payload = Some [0], payload_len = 1\<rparr>\<rparr>)]\<rparr>)"
    by (simp add: wimod_process_packet_def crc_ping_rsp dispatcher_matches_def hci_waiter_def
      wimod_device_init_def wimod_hci_packet_dispatch_completion_def init_completion_def
      completion_done_def kzalloc_def complete_def)
  have e: "ping_response \<lparr>comp_done = 0, payload = Some [0], payload_len = 1\<rparr> = Inr 0"
    "ping_response \<lparr>comp_done = 1, payload = Some [1], payload_len = 1\<rparr> = Inr (- 22)"
    by (simp_all add: ping_response_def wimod_hci_devmgmt_status_def DEVMGMT_STATUS_OK_def
      EINVAL_def)
  show ?thesis by (intro conjI a b c d e)
qed

subsection \<open>The request operations\<close>

lemma remove_not_mem: "p \<notin> fst ` set (packet_dispatchers (wimod_hci_remove_dispatcher wm p))"
  by (auto simp: wimod_hci_remove_dispatcher_def)

lemma ping_send_fails:
  assumes "wimod_hci_send (serdev wm) DEVMGMT_ID DEVMGMT_MSG_PING_REQ [] = (ret, sdev')" "ret \<noteq> 0"
  shows "wimod_hci_ping wm p timeout rx =
         (Inr ret,
          wimod_hci_remove_dispatcher
            ((wimod_hci_add_dispatcher wm p (hci_waiter DEVMGMT_ID DEVMGMT_MSG_PING_RSP))
               \<lparr>serdev := sdev'\<rparr>) p)"
  using assms by (simp add: wimod_hci_ping_def Let_def wimod_hci_add_dispatcher_def)

lemma get_device_info_send_fails:
  assumes "wimod_hci_send (serdev wm) DEVMGMT_ID DEVMGMT_MSG_GET_DEVICE_INFO_REQ [] = (ret, sdev')"
    "ret \<noteq> 0"
  shows "wimod_hci_get_device_info wm p buf timeout rx =
         (Inr ret, buf,
          wimod_hci_remove_dispatcher
            ((wimod_hci_add_dispatcher wm p (hci_waiter DEVMGMT_ID DEVMGMT_MSG_GET_DEVICE_INFO_RSP))
               \<lparr>serdev := sdev'\<rparr>) p)"
  using assms by (simp add: wimod_hci_get_device_info_def Let_def wimod_hci_add_dispatcher_def)

lemma ping_waited:
  assumes "wimod_hci_send (serdev wm) DEVMGMT_ID DEVMGMT_MSG_PING_REQ [] = (0, sdev')"
    and "serdev_receive
           ((wimod_hci_add_dispatcher wm p (hci_waiter DEVMGMT_ID DEVMGMT_MSG_PING_RSP))
              \<lparr>serdev := sdev'\<rparr>) [] rx [] = Inr (pending, tr, wm2)"
    and "map_of (packet_dispatchers wm2) p = Some d"
  shows "wimod_hci_ping wm p timeout rx =
         (if comp_done (container d) = 0 then Inr (- ETIMEDOUT)
          else ping_response (snd (wait_for_completion_timeout (container d) timeout)),
          wimod_hci_remove_dispatcher wm2 p)"
  using assms
  by (simp add: wimod_hci_ping_def Let_def wimod_hci_add_dispatcher_def
      wait_for_completion_timeout_def)

lemma get_device_info_waited:
  assumes "wimod_hci_send (serdev wm) DEVMGMT_ID DEVMGMT_MSG_GET_DEVICE_INFO_REQ [] = (0, sdev')"
    and "serdev_receive
           ((wimod_hci_add_dispatcher wm p (hci_waiter DEVMGMT_ID DEVMGMT_MSG_GET_DEVICE_INFO_RSP))
              \<lparr>serdev := sdev'\<rparr>) [] rx [] = Inr (pending, tr, wm2)"
    and "map_of (packet_dispatchers wm2) p = Some d"
  shows "wimod_hci_get_device_info wm p buf timeout rx =
         (if comp_done (container d) = 0 then (Inr (- ETIMEDOUT), buf, wimod_hci_remove_dispatcher wm2 p)
          else (fst (get_device_info_response
                       (snd (wait_for_completion_timeout (container d) timeout)) buf),
                snd (get_device_info_response
                       (snd (wait_for_completion_timeout (container d) timeout)) buf),
                wimod_hci_remove_dispatcher wm2 p))"
  using assms
  by (simp add: wimod_hci_get_device_info_def Let_def wimod_hci_add_dispatcher_def
      wait_for_completion_timeout_def split: prod.splits)

lemma ping_returns:
  assumes "wimod_hci_ping wm p timeout rx = (Inr r, wm')"
  shows "p \<notin> fst ` set (packet_dispatchers wm')"
proof -
  have "\<exists>x. wm' = wimod_hci_remove_dispatcher x p"
    using assms unfolding wimod_hci_ping_def Let_def
    by (auto split: prod.splits if_splits sum.splits option.splits)
  then obtain x where "wm' = wimod_hci_remove_dispatcher x p" ..
  then show ?thesis by (simp only: remove_not_mem not_False_eq_True)
qed

lemma get_device_info_returns:
  assumes "wimod_hci_get_device_info wm p buf timeout rx = (Inr r, buf', wm')"
  shows "p \<notin> fst ` set (packet_dispatchers wm')"
proof -
  have "\<exists>x. wm' = wimod_hci_remove_dispatcher x p"
    using assms unfolding wimod_hci_get_device_info_def Let_def
    by (auto split: prod.splits if_splits sum.splits option.splits)
  then obtain x where "wm' = wimod_hci_remove_dispatcher x p" ..
  then show ?thesis by (simp only: remove_not_mem not_False_eq_True)
qed

text \<open>
  Claim C6 (synchronizer cleanup), as amended: the timeout error is \<open>-ETIMEDOUT\<close>, and a
  write error is returned as it is, whatever its value. For \<open>wimod_hci_ping\<close> and
  \<open>wimod_hci_get_device_info\<close>: (a) when sending fails, the call returns the error of the
  write with the waiter removed, and the result depends neither on the timeout nor on
  what arrives: it does not wait; (b) when the chunks that arrive before the deadline
  leave the waiter's completion not fired, the call returns \<open>-ETIMEDOUT\<close> with the
  waiter removed; (c) whenever the call returns, the address of the waiter is not in the
  registry.
\<close>

theorem C6_synchronizer_cleanup:
  "(wimod_hci_send (serdev wmdev) DEVMGMT_ID DEVMGMT_MSG_PING_REQ [] = (ret, sdev') \<and> ret \<noteq> 0 \<longrightarrow>
      wimod_hci_ping wmdev p timeout rx =
        (Inr ret,
         wimod_hci_remove_dispatcher
           ((wimod_hci_add_dispatcher wmdev p (hci_waiter DEVMGMT_ID DEVMGMT_MSG_PING_RSP))
              \<lparr>serdev := sdev'\<rparr>) p)) \<and>
   (wimod_hci_send (serdev wmdev) DEVMGMT_ID DEVMGMT_MSG_GET_DEVICE_INFO_REQ [] = (ret, sdev') \<and>
    ret \<noteq> 0 \<longrightarrow>
      wimod_hci_get_device_info wmdev p buf timeout rx =
        (Inr ret, buf,
         wimod_hci_remove_dispatcher
           ((wimod_hci_add_dispatcher wmdev p
               (hci_waiter DEVMGMT_ID DEVMGMT_MSG_GET_DEVICE_INFO_RSP))\<lparr>serdev := sdev'\<rparr>) p)) \<and>
   (wimod_hci_send (serdev wmdev) DEVMGMT_ID DEVMGMT_MSG_PING_REQ [] = (0, sdev') \<and>
    serdev_receive
      ((wimod_hci_add_dispatcher wmdev p (hci_waiter DEVMGMT_ID DEVMGMT_MSG_PING_RSP))
         \<lparr>serdev := sdev'\<rparr>) [] rx [] = Inr (pending, tr, wm2) \<and>
    map_of (packet_dispatchers wm2) p = Some d \<and> comp_done (container d) = 0 \<longrightarrow>
      wimod_hci_ping wmdev p timeout rx =
        (Inr (- ETIMEDOUT), wimod_hci_remove_dispatcher wm2 p)) \<and>
   (wimod_hci_send (serdev wmdev) DEVMGMT_ID DEVMGMT_MSG_GET_DEVICE_INFO_REQ [] = (0, sdev') \<and>
    serdev_receive
      ((wimod_hci_add_dispatcher wmdev p (hci_waiter DEVMGMT_ID DEVMGMT_MSG_GET_DEVICE_INFO_RSP))
         \<lparr>serdev := sdev'\<rparr>) [] rx [] = Inr (pending, tr, wm2) \<and>
    map_of (packet_dispatchers wm2) p = Some d \<and> comp_done (container d) = 0 \<longrightarrow>
      wimod_hci_get_device_info wmdev p buf timeout rx =
        (Inr (- ETIMEDOUT), buf, wimod_hci_remove_dispatcher wm2 p)) \<and>
   (wimod_hci_ping wmdev p timeout rx = (Inr r, wm') \<longrightarrow>
      p \<notin> fst ` set (packet_dispatchers wm')) \<and>
   (wimod_hci_get_device_info wmdev p buf timeout rx = (Inr r, buf', wm') \<longrightarrow>
      p \<notin> fst ` set (packet_dispatchers wm'))"
proof (intro conjI impI)
  assume "wimod_hci_send (serdev wmdev) DEVMGMT_ID DEVMGMT_MSG_PING_REQ [] = (ret, sdev') \<and> ret \<noteq> 0"
  then show "wimod_hci_ping wmdev p timeout rx =
        (Inr ret,
         wimod_hci_remove_dispatcher
           ((wimod_hci_add_dispatcher wmdev p (hci_waiter DEVMGMT_ID DEVMGMT_MSG_PING_RSP))
              \<lparr>serdev := sdev'\<rparr>) p)"
    by (simp add: ping_send_fails)
next
  assume "wimod_hci_send (serdev wmdev) DEVMGMT_ID DEVMGMT_MSG_GET_DEVICE_INFO_REQ [] = (ret, sdev') \<and>
    ret \<noteq> 0"
  then show "wimod_hci_get_device_info wmdev p buf timeout rx =
        (Inr ret, buf,
         wimod_hci_remove_dispatcher
           ((wimod_hci_add_dispatcher wmdev p
               (hci_waiter DEVMGMT_ID DEVMGMT_MSG_GET_DEVICE_INFO_RSP))\<lparr>serdev := sdev'\<rparr>) p)"
    by (simp add: get_device_info_send_fails)
next
  assume a: "wimod_hci_send (serdev wmdev) DEVMGMT_ID DEVMGMT_MSG_PING_REQ [] = (0, sdev') \<and>
    serdev_receive
      ((wimod_hci_add_dispatcher wmdev p (hci_waiter DEVMGMT_ID DEVMGMT_MSG_PING_RSP))
         \<lparr>serdev := sdev'\<rparr>) [] rx [] = Inr (pending, tr, wm2) \<and>
    map_of (packet_dispatchers wm2) p = Some d \<and> comp_done (container d) = 0"
  then show "wimod_hci_ping wmdev p timeout rx =
        (Inr (- ETIMEDOUT), wimod_hci_remove_dispatcher wm2 p)"
    using ping_waited [of wmdev sdev' p rx pending tr wm2 d timeout] by simp
next
  assume a: "wimod_hci_send (serdev wmdev) DEVMGMT_ID DEVMGMT_MSG_GET_DEVICE_INFO_REQ [] = (0, sdev') \<and>
    serdev_receive
      ((wimod_hci_add_dispatcher wmdev p (hci_waiter DEVMGMT_ID DEVMGMT_MSG_GET_DEVICE_INFO_RSP))
         \<lparr>serdev := sdev'\<rparr>) [] rx [] = Inr (pending, tr, wm2) \<and>
    map_of (packet_dispatchers wm2) p = Some d \<and> comp_done (container d) = 0"
  then show "wimod_hci_get_device_info wmdev p buf timeout rx =
        (Inr (- ETIMEDOUT), buf, wimod_hci_remove_dispatcher wm2 p)"
    using get_device_info_waited [of wmdev sdev' p rx pending tr wm2 d buf timeout] by simp
next
  assume "wimod_hci_ping wmdev p timeout rx = (Inr r, wm')"
  then show "p \<notin> fst ` set (packet_dispatchers wm')" by (rule ping_returns)
next
  assume "wimod_hci_get_device_info wmdev p buf timeout rx = (Inr r, buf', wm')"
  then show "p \<notin> fst ` set (packet_dispatchers wm')" by (rule get_device_info_returns)
qed

lemma hci_send_write_fails:
  "r \<noteq> 0 \<Longrightarrow> wimod_hci_send \<lparr>tx = t, wr_results = r # rs\<rparr> dst msg pl =
     (r, \<lparr>tx = t, wr_results = rs\<rparr>)"
  by (simp add: wimod_hci_send_def slip_send_end_def serdev_device_write_def)

lemma crc_ccitt_byte_req3: "crc_ccitt_byte 0x1E0E 3 = 56315"
  by (simp add: crc_ccitt_byte_def crc_ccitt_table_def crc_step_def)

lemma hci_fcs_info_req: "hci_fcs 1 3 [] = 0x2404"
  by (simp add: hci_fcs_def crc_ccitt_byte_ping1 crc_ccitt_byte_req3)

lemma hci_send_ping:
  "wimod_hci_send \<lparr>tx = [], wr_results = []\<rparr> DEVMGMT_ID DEVMGMT_MSG_PING_REQ [] =
   (0, \<lparr>tx = [0xC0, 0x01, 0x01, 0x16, 0x07, 0xC0], wr_results = []\<rparr>)"
  by (simp add: wimod_hci_send_def hci_fcs_ping slip_send_end_def slip_send_data_def
      slip_send_data_loop.simps serdev_device_write_def segment_def le16_bytes_def
      SLIP_END_def SLIP_ESC_def DEVMGMT_ID_def DEVMGMT_MSG_PING_REQ_def)

lemma hci_send_info_req:
  "wimod_hci_send \<lparr>tx = [], wr_results = []\<rparr> DEVMGMT_ID DEVMGMT_MSG_GET_DEVICE_INFO_REQ [] =
   (0, \<lparr>tx = [0xC0, 0x01, 0x03, 0x04, 0x24, 0xC0], wr_results = []\<rparr>)"
  by (simp add: wimod_hci_send_def hci_fcs_info_req slip_send_end_def slip_send_data_def
      slip_send_data_loop.simps serdev_device_write_def segment_def le16_bytes_def
      SLIP_END_def SLIP_ESC_def DEVMGMT_ID_def DEVMGMT_MSG_GET_DEVICE_INFO_REQ_def)

theorem C6_synchronizer_cleanup_witness:
  "wimod_hci_ping (wimod_device_init \<lparr>tx = [], wr_results = [- 5]\<rparr> []) 0 3 [] =
     (Inr (- 5), wimod_device_init \<lparr>tx = [], wr_results = []\<rparr> []) \<and>
   wimod_hci_get_device_info (wimod_device_init \<lparr>tx = [], wr_results = [- 5]\<rparr> []) 0 None 3 [] =
     (Inr (- 5), None, wimod_device_init \<lparr>tx = [], wr_results = []\<rparr> []) \<and>
   wimod_hci_ping (wimod_device_init \<lparr>tx = [], wr_results = []\<rparr> []) 0 3 [] =
     (Inr (- ETIMEDOUT),
      wimod_device_init \<lparr>tx = [0xC0, 0x01, 0x01, 0x16, 0x07, 0xC0], wr_results = []\<rparr> []) \<and>
   wimod_hci_get_device_info (wimod_device_init \<lparr>tx = [], wr_results = []\<rparr> []) 0 None 3 [] =
     (Inr (- ETIMEDOUT), None,
      wimod_device_init \<lparr>tx = [0xC0, 0x01, 0x03, 0x04, 0x24, 0xC0], wr_results = []\<rparr> []) \<and>
   0 \<notin> fst ` set (packet_dispatchers
     (wimod_device_init \<lparr>tx = [0xC0, 0x01, 0x01, 0x16, 0x07, 0xC0], wr_results = []\<rparr> [])) \<and>
   0 \<notin> fst ` set (packet_dispatchers
     (wimod_device_init \<lparr>tx = [0xC0, 0x01, 0x03, 0x04, 0x24, 0xC0], wr_results = []\<rparr> []))"
proof -
  let ?f = "wimod_device_init \<lparr>tx = [], wr_results = [- 5]\<rparr> []"
  let ?w = "wimod_device_init \<lparr>tx = [], wr_results = []\<rparr> []"
  let ?s0 = "\<lparr>tx = [], wr_results = []\<rparr>"
  let ?s1 = "\<lparr>tx = [0xC0, 0x01, 0x01, 0x16, 0x07, 0xC0], wr_results = []\<rparr>"
  let ?s2 = "\<lparr>tx = [0xC0, 0x01, 0x03, 0x04, 0x24, 0xC0], wr_results = []\<rparr>"
  let ?P = "hci_waiter DEVMGMT_ID DEVMGMT_MSG_PING_RSP"
  let ?G = "hci_waiter DEVMGMT_ID DEVMGMT_MSG_GET_DEVICE_INFO_RSP"
  have f1: "wimod_hci_send (serdev ?f) DEVMGMT_ID DEVMGMT_MSG_PING_REQ [] = (- 5, ?s0) \<and> (- 5 :: int) \<noteq> 0"
    by (simp add: wimod_device_init_def hci_send_write_fails)
  have f2: "wimod_hci_send (serdev ?f) DEVMGMT_ID DEVMGMT_MSG_GET_DEVICE_INFO_REQ [] = (- 5, ?s0) \<and>
            (- 5 :: int) \<noteq> 0"
    by (simp add: wimod_device_init_def hci_send_write_fails)
  have rm: "wimod_hci_remove_dispatcher ((wimod_hci_add_dispatcher (wimod_device_init s k) 0 e)
              \<lparr>serdev := s'\<rparr>) 0 = wimod_device_init s' k" for s k e s'
    by (simp add: wimod_hci_remove_dispatcher_def wimod_hci_add_dispatcher_def wimod_device_init_def)
  have t1: "wimod_hci_send (serdev ?w) DEVMGMT_ID DEVMGMT_MSG_PING_REQ [] = (0, ?s1) \<and>
    serdev_receive ((wimod_hci_add_dispatcher ?w 0 ?P)\<lparr>serdev := ?s1\<rparr>) [] [] [] =
      Inr ([], [], (wimod_hci_add_dispatcher ?w 0 ?P)\<lparr>serdev := ?s1\<rparr>) \<and>
    map_of (packet_dispatchers ((wimod_hci_add_dispatcher ?w 0 ?P)\<lparr>serdev := ?s1\<rparr>)) 0 = Some ?P \<and>
    comp_done (container ?P) = 0"
    using hci_send_ping
    by (simp add: wimod_device_init_def wimod_hci_add_dispatcher_def hci_waiter_def
        init_completion_def)
  have t2: "wimod_hci_send (serdev ?w) DEVMGMT_ID DEVMGMT_MSG_GET_DEVICE_INFO_REQ [] = (0, ?s2) \<and>
    serdev_receive ((wimod_hci_add_dispatcher ?w 0 ?G)\<lparr>serdev := ?s2\<rparr>) [] [] [] =
      Inr ([], [], (wimod_hci_add_dispatcher ?w 0 ?G)\<lparr>serdev := ?s2\<rparr>) \<and>
    map_of (packet_dispatchers ((wimod_hci_add_dispatcher ?w 0 ?G)\<lparr>serdev := ?s2\<rparr>)) 0 = Some ?G \<and>
    comp_done (container ?G) = 0"
    using hci_send_info_req
    by (simp add: wimod_device_init_def wimod_hci_add_dispatcher_def hci_waiter_def
        init_completion_def)
  have a: "wimod_hci_ping ?f 0 3 [] = (Inr (- 5), wimod_device_init ?s0 [])"
    using C6_synchronizer_cleanup [of ?f "- 5" ?s0 0 3 "[]"] f1 by (simp add: rm)
  have b: "wimod_hci_get_device_info ?f 0 None 3 [] = (Inr (- 5), None, wimod_device_init ?s0 [])"
    using C6_synchronizer_cleanup [of ?f "- 5" ?s0 0 3 "[]" None] f2 by (simp add: rm)
  have c: "wimod_hci_ping ?w 0 3 [] = (Inr (- ETIMEDOUT), wimod_device_init ?s1 [])"
    using C6_synchronizer_cleanup [of ?w 0 ?s1 0 3 "[]" None "[]" "[]"
        "(wimod_hci_add_dispatcher ?w 0 ?P)\<lparr>serdev := ?s1\<rparr>" ?P] t1
    by (simp add: rm)
  have d: "wimod_hci_get_device_info ?w 0 None 3 [] = (Inr (- ETIMEDOUT), None, wimod_device_init ?s2 [])"
    using C6_synchronizer_cleanup [of ?w 0 ?s2 0 3 "[]" None "[]" "[]"
        "(wimod_hci_add_dispatcher ?w 0 ?G)\<lparr>serdev := ?s2\<rparr>" ?G] t2
    by (simp add: rm)
  have e: "0 \<notin> fst ` set (packet_dispatchers (wimod_device_init ?s1 []))"
    using C6_synchronizer_cleanup [of ?w 0 ?s1 0 3 "[]" None "[]" "[]"
        "(wimod_hci_add_dispatcher ?w 0 ?P)\<lparr>serdev := ?s1\<rparr>" ?P "- ETIMEDOUT"
        "wimod_device_init ?s1 []"] c
    by blast
  have f: "0 \<notin> fst ` set (packet_dispatchers (wimod_device_init ?s2 []))"
    using C6_synchronizer_cleanup [of ?w 0 ?s2 0 3 "[]" None "[]" "[]"
        "(wimod_hci_add_dispatcher ?w 0 ?G)\<lparr>serdev := ?s2\<rparr>" ?G "- ETIMEDOUT"
        "wimod_device_init ?s2 []" None] d
    by blast
  show ?thesis by (intro conjI a b c d e f)
qed

theorem C6_write_error_is_timeout_counterexample:
  "wimod_hci_send \<lparr>tx = [], wr_results = [- 110]\<rparr> DEVMGMT_ID DEVMGMT_MSG_PING_REQ [] =
     (- 110, \<lparr>tx = [], wr_results = []\<rparr>) \<and>
   wimod_hci_ping (wimod_device_init \<lparr>tx = [], wr_results = [- 110]\<rparr> []) 0 3 [] =
     (Inr (- ETIMEDOUT), wimod_device_init \<lparr>tx = [], wr_results = []\<rparr> []) \<and>
   wimod_hci_ping (wimod_device_init \<lparr>tx = [], wr_results = []\<rparr> []) 0 3 [] =
     (Inr (- ETIMEDOUT),
      wimod_device_init \<lparr>tx = [0xC0, 0x01, 0x01, 0x16, 0x07, 0xC0], wr_results = []\<rparr> [])"
proof -
  have a: "wimod_hci_send \<lparr>tx = [], wr_results = [- 110]\<rparr> DEVMGMT_ID DEVMGMT_MSG_PING_REQ [] =
     (- 110, \<lparr>tx = [], wr_results = []\<rparr>)"
    by (simp add: hci_send_write_fails)
  have b: "wimod_hci_ping (wimod_device_init \<lparr>tx = [], wr_results = [- 110]\<rparr> []) 0 3 [] =
     (Inr (- ETIMEDOUT), wimod_device_init \<lparr>tx = [], wr_results = []\<rparr> [])"
    by (simp add: wimod_hci_ping_def Let_def wimod_hci_add_dispatcher_def wimod_device_init_def
        hci_send_write_fails wimod_hci_remove_dispatcher_def ETIMEDOUT_def)
  have c: "wimod_hci_ping (wimod_device_init \<lparr>tx = [], wr_results = []\<rparr> []) 0 3 [] =
     (Inr (- ETIMEDOUT),
      wimod_device_init \<lparr>tx = [0xC0, 0x01, 0x01, 0x16, 0x07, 0xC0], wr_results = []\<rparr> [])"
    by (simp add: wimod_hci_ping_def Let_def wimod_hci_add_dispatcher_def wimod_device_init_def
        hci_send_ping wimod_hci_remove_dispatcher_def wait_for_completion_timeout_def
        hci_waiter_def init_completion_def)
  show ?thesis by (intro conjI a b c)
qed

subsection \<open>Validating the device information\<close>

lemma errno_distinct: "- EINVAL \<noteq> - ETIMEDOUT" "- EINVAL \<noteq> 0"
  by (simp_all add: EINVAL_def ETIMEDOUT_def)

text \<open>
  Lines 282 to 305 on a packet whose payload slot holds \<open>ps\<close> with \<open>payload_len\<close> its
  length, as the handler leaves it when its allocation succeeded: 0 exactly when \<open>ps\<close>
  has at least 10 bytes and starts with \<open>DEVMGMT_STATUS_OK\<close>, and then a buffer of at
  least 9 bytes receives bytes \<open>1 .. 9\<close> of \<open>ps\<close>; otherwise \<open>-EINVAL\<close> and the buffer
  untouched.
\<close>

lemma device_info_response:
  assumes "payload packet = Some ps" "payload_len packet = int (length ps)"
  shows "get_device_info_response packet buf =
         (if 10 \<le> length ps \<and> ps ! 0 = DEVMGMT_STATUS_OK
          then (case buf of
                  None \<Rightarrow> (Inr 0, None)
                | Some b \<Rightarrow>
                    if length b < 9 then (Inl Bad_write, buf)
                    else (Inr 0, Some (take 9 (drop 1 ps) @ drop 9 b)))
          else (Inr (- EINVAL), buf))"
proof (cases ps)
  case Nil
  then show ?thesis using assms by (simp add: get_device_info_response_def)
next
  case (Cons status info)
  have m: "10 \<le> length ps \<Longrightarrow> nat (min (payload_len packet - 1) 9) = 9"
    using assms(2) by simp
  show ?thesis
    using assms Cons m
    by (cases buf)
      (auto simp: get_device_info_response_def wimod_hci_devmgmt_status_def Let_def
        errno_distinct EINVAL_def memcpy_def)
qed

text \<open>
  The same lines on a packet whose payload slot is null while \<open>payload_len\<close> is at least
  1, as the handler leaves it when its allocation failed: the check of line 282 passes
  and line 288 reads \<open>packet.payload[0]\<close>.
\<close>

lemma device_info_null_payload:
  "payload packet = None \<Longrightarrow> 1 \<le> payload_len packet \<Longrightarrow>
   get_device_info_response packet buf = (Inl Bad_read, buf)"
  by (simp add: get_device_info_response_def)

lemma ping_null_payload:
  "payload packet = None \<Longrightarrow> 1 \<le> payload_len packet \<Longrightarrow> ping_response packet = Inl Bad_read"
  by (simp add: ping_response_def)

lemma crc_info_steps:
  "crc_ccitt_byte 0x1E0E 4 = 44868" "crc_ccitt_byte 44868 0 = 1167"
  "crc_ccitt_byte 1167 1 = 28018" "crc_ccitt_byte 28018 2 = 29674"
  "crc_ccitt_byte 29674 3 = 31420" "crc_ccitt_byte 31420 4 = 14777"
  "crc_ccitt_byte 14777 5 = 32734" "crc_ccitt_byte 32734 6 = 23226"
  "crc_ccitt_byte 23226 7 = 28212" "crc_ccitt_byte 28212 8 = 64385"
  "crc_ccitt_byte 64385 9 = 2235"
  by (simp_all add: crc_ccitt_byte_def crc_ccitt_table_def crc_step_def)

lemma hci_frame_info_rsp:
  "hci_frame 1 4 [0, 1, 2, 3, 4, 5, 6, 7, 8, 9] = [1, 4, 0, 1, 2, 3, 4, 5, 6, 7, 8, 9, 0x44, 0xF7]"
  by (simp add: hci_frame_def hci_fcs_def le16_bytes_def crc_ccitt_def crc_ccitt_byte_ping1
      crc_info_steps)

lemma crc_info_rsp:
  "NOT (crc_ccitt 0xffff [1, 4, 0, 1, 2, 3, 4, 5, 6, 7, 8, 9, 0x44, 0xF7]) = 0x0f47"
  using hci_frame_residual [of 1 4 "[0, 1, 2, 3, 4, 5, 6, 7, 8, 9]"]
  by (simp add: hci_frame_info_rsp)

lemma receive_info_rsp:
  "serdev_receive
     ((wimod_hci_add_dispatcher (wimod_device_init \<lparr>tx = [], wr_results = []\<rparr> []) 0
         (hci_waiter DEVMGMT_ID DEVMGMT_MSG_GET_DEVICE_INFO_RSP))
        \<lparr>serdev := \<lparr>tx = [0xC0, 0x01, 0x03, 0x04, 0x24, 0xC0], wr_results = []\<rparr>\<rparr>) []
     [[0xC0, 1, 4, 0, 1, 2, 3], [4, 5, 6, 7, 8, 9, 0x44, 0xF7, 0xC0]] [] =
   Inr ([], [([1, 4, 0, 1, 2, 3, 4, 5, 6, 7, 8, 9, 0x44, 0xF7], Dispatched (Some 0))],
        (wimod_device_init \<lparr>tx = [0xC0, 0x01, 0x03, 0x04, 0x24, 0xC0], wr_results = []\<rparr> [])
          \<lparr>rx_buf := [1, 4, 0, 1, 2, 3, 4, 5, 6, 7, 8, 9, 0x44, 0xF7] @ replicate 596 0,
           packet_dispatchers :=
             [(0, (hci_waiter DEVMGMT_ID DEVMGMT_MSG_GET_DEVICE_INFO_RSP)
                    \<lparr>container := \<lparr>comp_done = 1, payload = Some [0, 1, 2, 3, 4, 5, 6, 7, 8, 9],
                                     payload_len = 10\<rparr>\<rparr>)]\<rparr>)"
  by (simp add: wimod_receive_buf_def wimod_receive_loop.simps wimod_device_init_def
      wimod_hci_add_dispatcher_def hci_waiter_def init_completion_def
      packet_max size_t_def rx_store_def wimod_process_packet_def crc_info_rsp
      dispatcher_matches_def wimod_hci_packet_dispatch_completion_def completion_done_def
      kzalloc_def complete_def
      SLIP_END_def SLIP_ESC_def SLIP_ESC_END_def SLIP_ESC_ESC_def
      DEVMGMT_ID_def DEVMGMT_MSG_GET_DEVICE_INFO_RSP_def)

lemma receive_info_rsp_nomem:
  "serdev_receive
     ((wimod_hci_add_dispatcher (wimod_device_init \<lparr>tx = [], wr_results = []\<rparr> [False]) 0
         (hci_waiter DEVMGMT_ID DEVMGMT_MSG_GET_DEVICE_INFO_RSP))
        \<lparr>serdev := \<lparr>tx = [0xC0, 0x01, 0x03, 0x04, 0x24, 0xC0], wr_results = []\<rparr>\<rparr>) []
     [[0xC0, 1, 4, 0, 1, 2, 3], [4, 5, 6, 7, 8, 9, 0x44, 0xF7, 0xC0]] [] =
   Inr ([], [([1, 4, 0, 1, 2, 3, 4, 5, 6, 7, 8, 9, 0x44, 0xF7], Dispatched (Some 0))],
        (wimod_device_init \<lparr>tx = [0xC0, 0x01, 0x03, 0x04, 0x24, 0xC0], wr_results = []\<rparr> [])
          \<lparr>rx_buf := [1, 4, 0, 1, 2, 3, 4, 5, 6, 7, 8, 9, 0x44, 0xF7] @ replicate 596 0,
           packet_dispatchers :=
             [(0, (hci_waiter DEVMGMT_ID DEVMGMT_MSG_GET_DEVICE_INFO_RSP)
                    \<lparr>container := \<lparr>comp_done = 1, payload = None, payload_len = 10\<rparr>\<rparr>)]\<rparr>)"
  by (simp add: wimod_receive_buf_def wimod_receive_loop.simps wimod_device_init_def
      wimod_hci_add_dispatcher_def hci_waiter_def init_completion_def
      packet_max size_t_def rx_store_def wimod_process_packet_def crc_info_rsp
      dispatcher_matches_def wimod_hci_packet_dispatch_completion_def completion_done_def
      kzalloc_def complete_def
      SLIP_END_def SLIP_ESC_def SLIP_ESC_END_def SLIP_ESC_ESC_def
      DEVMGMT_ID_def DEVMGMT_MSG_GET_DEVICE_INFO_RSP_def)

text \<open>
  Claim C9 (get-device-info validation) does not hold of the code when the allocation of
  the handler fails. The handler then completes the waiter with \<open>payload_len\<close> set and
  the payload slot null (it guards its own copy with \<open>if (disp->payload)\<close>);
  \<open>wimod_hci_get_device_info\<close> checks \<open>payload_len\<close> only and reads
  \<open>packet.payload[0]\<close> at line 288.

  Below, the response \<open>01 04 00 01 .. 09 44 F7\<close> (status 0 and 9 info bytes) arrives in
  two chunks. With the allocation succeeding the call returns 0 and the buffer holds the
  9 info bytes; with the allocation failing the call does not return 0: it reads through
  the null pointer.
\<close>

theorem C9_null_payload_read:
  "wimod_hci_get_device_info (wimod_device_init \<lparr>tx = [], wr_results = []\<rparr> []) 0
     (Some (replicate 9 0)) 3
     [[0xC0, 1, 4, 0, 1, 2, 3], [4, 5, 6, 7, 8, 9, 0x44, 0xF7, 0xC0]] =
     (Inr 0, Some [1, 2, 3, 4, 5, 6, 7, 8, 9],
      (wimod_device_init \<lparr>tx = [0xC0, 0x01, 0x03, 0x04, 0x24, 0xC0], wr_results = []\<rparr> [])
        \<lparr>rx_buf := [1, 4, 0, 1, 2, 3, 4, 5, 6, 7, 8, 9, 0x44, 0xF7] @ replicate 596 0\<rparr>) \<and>
   wimod_hci_get_device_info (wimod_device_init \<lparr>tx = [], wr_results = []\<rparr> [False]) 0
     (Some (replicate 9 0)) 3
     [[0xC0, 1, 4, 0, 1, 2, 3], [4, 5, 6, 7, 8, 9, 0x44, 0xF7, 0xC0]] =
     (Inl Bad_read, Some (replicate 9 0),
      (wimod_device_init \<lparr>tx = [0xC0, 0x01, 0x03, 0x04, 0x24, 0xC0], wr_results = []\<rparr> [])
        \<lparr>rx_buf := [1, 4, 0, 1, 2, 3, 4, 5, 6, 7, 8, 9, 0x44, 0xF7] @ replicate 596 0\<rparr>)"
proof -
  let ?s2 = "\<lparr>tx = [0xC0, 0x01, 0x03, 0x04, 0x24, 0xC0], wr_results = []\<rparr>"
  let ?G = "hci_waiter DEVMGMT_ID DEVMGMT_MSG_GET_DEVICE_INFO_RSP"
  let ?ps = "[0, 1, 2, 3, 4, 5, 6, 7, 8, 9] :: u8 list"
  let ?rx = "[[0xC0, 1, 4, 0, 1, 2, 3], [4, 5, 6, 7, 8, 9, 0x44, 0xF7, 0xC0]] :: u8 list list"
  let ?tr = "[([1, 4, 0, 1, 2, 3, 4, 5, 6, 7, 8, 9, 0x44, 0xF7], Dispatched (Some 0))] :: rx_trace"
  let ?rxb = "[1, 4, 0, 1, 2, 3, 4, 5, 6, 7, 8, 9, 0x44, 0xF7] @ replicate 596 (0 :: u8)"
  have a: "wimod_hci_get_device_info (wimod_device_init \<lparr>tx = [], wr_results = []\<rparr> []) 0
     (Some (replicate 9 0)) 3 ?rx =
     (Inr 0, Some [1, 2, 3, 4, 5, 6, 7, 8, 9], (wimod_device_init ?s2 [])\<lparr>rx_buf := ?rxb\<rparr>)"
  proof -
    let ?w = "wimod_device_init \<lparr>tx = [], wr_results = []\<rparr> []"
    let ?c = "\<lparr>comp_done = 1, payload = Some ?ps, payload_len = 10\<rparr>"
    let ?d = "?G\<lparr>container := ?c\<rparr>"
    let ?wm2 = "(wimod_device_init ?s2 [])\<lparr>rx_buf := ?rxb, packet_dispatchers := [(0, ?d)]\<rparr>"
    have s: "wimod_hci_send (serdev ?w) DEVMGMT_ID DEVMGMT_MSG_GET_DEVICE_INFO_REQ [] = (0, ?s2)"
      using hci_send_info_req by (simp add: wimod_device_init_def)
    have r: "serdev_receive ((wimod_hci_add_dispatcher ?w 0 ?G)\<lparr>serdev := ?s2\<rparr>) [] ?rx [] =
      Inr ([], ?tr, ?wm2)"
      using receive_info_rsp by simp
    have m: "map_of (packet_dispatchers ?wm2) 0 = Some ?d" by simp
    have pk: "payload (snd (wait_for_completion_timeout (container ?d) 3)) = Some ?ps"
      "payload_len (snd (wait_for_completion_timeout (container ?d) 3)) = int (length ?ps)"
      by (simp_all add: wait_for_completion_timeout_def)
    have g: "get_device_info_response (snd (wait_for_completion_timeout (container ?d) 3))
               (Some (replicate 9 0)) = (Inr 0, Some [1, 2, 3, 4, 5, 6, 7, 8, 9])"
      unfolding device_info_response [OF pk] by (simp add: DEVMGMT_STATUS_OK_def)
    show ?thesis
      unfolding get_device_info_waited [OF s r m] g
      by (simp add: wimod_hci_remove_dispatcher_def wimod_device_init_def)
  qed
  have b: "wimod_hci_get_device_info (wimod_device_init \<lparr>tx = [], wr_results = []\<rparr> [False]) 0
     (Some (replicate 9 0)) 3 ?rx =
     (Inl Bad_read, Some (replicate 9 0), (wimod_device_init ?s2 [])\<lparr>rx_buf := ?rxb\<rparr>)"
  proof -
    let ?w = "wimod_device_init \<lparr>tx = [], wr_results = []\<rparr> [False]"
    let ?c = "\<lparr>comp_done = 1, payload = None, payload_len = 10\<rparr>"
    let ?d = "?G\<lparr>container := ?c\<rparr>"
    let ?wm2 = "(wimod_device_init ?s2 [])\<lparr>rx_buf := ?rxb, packet_dispatchers := [(0, ?d)]\<rparr>"
    have s: "wimod_hci_send (serdev ?w) DEVMGMT_ID DEVMGMT_MSG_GET_DEVICE_INFO_REQ [] = (0, ?s2)"
      using hci_send_info_req by (simp add: wimod_device_init_def)
    have r: "serdev_receive ((wimod_hci_add_dispatcher ?w 0 ?G)\<lparr>serdev := ?s2\<rparr>) [] ?rx [] =
      Inr ([], ?tr, ?wm2)"
      using receive_info_rsp_nomem by simp
    have m: "map_of (packet_dispatchers ?wm2) 0 = Some ?d" by simp
    have pk: "payload (snd (wait_for_completion_timeout (container ?d) 3)) = None"
      "1 \<le> payload_len (snd (wait_for_completion_timeout (container ?d) 3))"
      by (simp_all add: wait_for_completion_timeout_def)
    have g: "get_device_info_response (snd (wait_for_completion_timeout (container ?d) 3))
               (Some (replicate 9 0)) = (Inl Bad_read, Some (replicate 9 0))"
      by (rule device_info_null_payload [OF pk])
    show ?thesis
      unfolding get_device_info_waited [OF s r m] g
      by (simp add: wimod_hci_remove_dispatcher_def wimod_device_init_def)
  qed
  show ?thesis by (intro conjI a b)
qed

end
